theory Spec2Isabelle
  imports Complex_Main
begin

section \<open>Keymanager API routes (packages/api/src/keymanager/routes.ts)\<close>

subsection \<open>Status taxonomy\<close>

text \<open>
  The four string enums of routes.ts, lines 14 to 54. A TypeScript string enum is a closed
  set of members, each with a string value; the members are the constructors and the
  values are given by the \<open>_value\<close> functions.
\<close>

datatype ImportStatus =
  ImportStatus_imported | ImportStatus_duplicate | ImportStatus_error

datatype DeletionStatus =
  DeletionStatus_deleted | DeletionStatus_not_active | DeletionStatus_not_found
  | DeletionStatus_error

datatype ImportRemoteKeyStatus =
  ImportRemoteKeyStatus_imported | ImportRemoteKeyStatus_duplicate
  | ImportRemoteKeyStatus_error

datatype DeleteRemoteKeyStatus =
  DeleteRemoteKeyStatus_deleted | DeleteRemoteKeyStatus_not_found
  | DeleteRemoteKeyStatus_error

fun ImportStatus_value :: "ImportStatus \<Rightarrow> string" where
  "ImportStatus_value ImportStatus_imported = ''imported''"
| "ImportStatus_value ImportStatus_duplicate = ''duplicate''"
| "ImportStatus_value ImportStatus_error = ''error''"

fun DeletionStatus_value :: "DeletionStatus \<Rightarrow> string" where
  "DeletionStatus_value DeletionStatus_deleted = ''deleted''"
| "DeletionStatus_value DeletionStatus_not_active = ''not_active''"
| "DeletionStatus_value DeletionStatus_not_found = ''not_found''"
| "DeletionStatus_value DeletionStatus_error = ''error''"

fun ImportRemoteKeyStatus_value :: "ImportRemoteKeyStatus \<Rightarrow> string" where
  "ImportRemoteKeyStatus_value ImportRemoteKeyStatus_imported = ''imported''"
| "ImportRemoteKeyStatus_value ImportRemoteKeyStatus_duplicate = ''duplicate''"
| "ImportRemoteKeyStatus_value ImportRemoteKeyStatus_error = ''error''"

fun DeleteRemoteKeyStatus_value :: "DeleteRemoteKeyStatus \<Rightarrow> string" where
  "DeleteRemoteKeyStatus_value DeleteRemoteKeyStatus_deleted = ''deleted''"
| "DeleteRemoteKeyStatus_value DeleteRemoteKeyStatus_not_found = ''not_found''"
| "DeleteRemoteKeyStatus_value DeleteRemoteKeyStatus_error = ''error''"

subsection \<open>The operations of the Api type\<close>

text \<open>
  The method names of the type \<open>Api\<close> (lines 105 to 205), in declaration order.
\<close>

definition Api_operations :: "string list" where
  "Api_operations =
     [''listKeys'', ''importKeystores'', ''deleteKeys'',
      ''listRemoteKeys'', ''importRemoteKeys'', ''deleteRemoteKeys'',
      ''listFeeRecipient'', ''setFeeRecipient'', ''deleteFeeRecipient'',
      ''getGasLimit'', ''setGasLimit'', ''deleteGasLimit'']"

subsection \<open>Route table\<close>

datatype http_method = GET | POST | DELETE

text \<open>
  One entry of \<open>routesData\<close>: \<open>statusOk\<close> is an optional property of the object
  literal, \<open>None\<close> where the entry does not write it; \<open>route_method\<close> is the
  property \<open>method\<close>.
\<close>

record RouteDef =
  url :: string
  route_method :: http_method
  statusOk :: "nat option"

text \<open>
  The object literal \<open>routesData\<close> (lines 207 to 223) as the list of its properties, in
  the order they are written.
\<close>

definition routesData :: "(string \<times> RouteDef) list" where
  "routesData =
     [(''listKeys'', \<lparr>url = ''/eth/v1/keystores'', route_method = GET, statusOk = None\<rparr>),
      (''importKeystores'', \<lparr>url = ''/eth/v1/keystores'', route_method = POST, statusOk = None\<rparr>),
      (''deleteKeys'', \<lparr>url = ''/eth/v1/keystores'', route_method = DELETE, statusOk = None\<rparr>),
      (''listRemoteKeys'', \<lparr>url = ''/eth/v1/remotekeys'', route_method = GET, statusOk = None\<rparr>),
      (''importRemoteKeys'', \<lparr>url = ''/eth/v1/remotekeys'', route_method = POST, statusOk = None\<rparr>),
      (''deleteRemoteKeys'',
         \<lparr>url = ''/eth/v1/remotekeys'', route_method = DELETE, statusOk = None\<rparr>),
      (''listFeeRecipient'',
         \<lparr>url = ''/eth/v1/validator/{pubkey}/feerecipient'', route_method = GET, statusOk = None\<rparr>),
      (''setFeeRecipient'',
         \<lparr>url = ''/eth/v1/validator/{pubkey}/feerecipient'', route_method = POST,
          statusOk = Some 202\<rparr>),
      (''deleteFeeRecipient'',
         \<lparr>url = ''/eth/v1/validator/{pubkey}/feerecipient'', route_method = DELETE,
          statusOk = Some 204\<rparr>),
      (''getGasLimit'',
         \<lparr>url = ''/eth/v1/validator/{pubkey}/gas_limit'', route_method = GET, statusOk = None\<rparr>),
      (''setGasLimit'',
         \<lparr>url = ''/eth/v1/validator/{pubkey}/gas_limit'', route_method = POST,
          statusOk = Some 202\<rparr>),
      (''deleteGasLimit'',
         \<lparr>url = ''/eth/v1/validator/{pubkey}/gas_limit'', route_method = DELETE,
          statusOk = Some 204\<rparr>)]"

text \<open>The names of the routes, and the names of the routes that write a given \<open>statusOk\<close>.\<close>

definition route_names :: "string list" where
  "route_names = map fst routesData"

definition routes_with_statusOk :: "nat option \<Rightarrow> string list" where
  "routes_with_statusOk c = map fst (filter (\<lambda>e. statusOk (snd e) = c) routesData)"

text \<open>
  Modelled from the spec: the default success code. The code that reads \<open>statusOk\<close>
  lives in the package's utils, outside this file; the specification gives 200 as the
  success code of a route that does not override it.
\<close>

definition successStatus :: "RouteDef \<Rightarrow> nat" where
  "successStatus r = (case statusOk r of None \<Rightarrow> 200 | Some c \<Rightarrow> c)"

definition routes_with_successStatus :: "nat \<Rightarrow> string list" where
  "routes_with_successStatus c = map fst (filter (\<lambda>e. successStatus (snd e) = c) routesData)"

text \<open>What a request is dispatched on: the HTTP method and the path template.\<close>

definition dispatch_key :: "RouteDef \<Rightarrow> http_method \<times> string" where
  "dispatch_key r = (route_method r, url r)"

definition dispatch_keys :: "(http_method \<times> string) list" where
  "dispatch_keys = map (\<lambda>e. dispatch_key (snd e)) routesData"

definition routes_with_url :: "string \<Rightarrow> string list" where
  "routes_with_url u = map fst (filter (\<lambda>e. url (snd e) = u) routesData)"

subsection \<open>Request types\<close>

text \<open>
  The type \<open>ReqTypes\<close> (lines 227 to 253) describes, per operation, the shape of the
  wire request. A shape is written down as data: a TypeScript type built from
  \<open>string\<close>, arrays and object types whose properties may be optional.
\<close>

datatype ts_type =
  TString
  | TBoolean
  | TArray ts_type
  | TObject "(string \<times> bool \<times> ts_type) list"

text \<open>A property \<open>name: T\<close> is required, a property \<open>name?: T\<close> is optional.\<close>

definition required :: "string \<Rightarrow> ts_type \<Rightarrow> string \<times> bool \<times> ts_type" where
  "required name t = (name, False, t)"

definition optional :: "string \<Rightarrow> ts_type \<Rightarrow> string \<times> bool \<times> ts_type" where
  "optional name t = (name, True, t)"

text \<open>
  The aliases \<open>KeystoreStr\<close>, \<open>SlashingProtectionData\<close> and \<open>PubkeyHex\<close> are all
  \<open>string\<close> (lines 87, 95 and 103).
\<close>

definition KeystoreStr :: ts_type where
  "KeystoreStr = TString"

definition SlashingProtectionData :: ts_type where
  "SlashingProtectionData = TString"

definition PubkeyHex :: ts_type where
  "PubkeyHex = TString"

text \<open>The type \<open>SignerDefinition\<close> (lines 70 to 79) and TypeScript's \<open>Pick\<close>.\<close>

definition SignerDefinition :: ts_type where
  "SignerDefinition =
     TObject [required ''pubkey'' PubkeyHex, required ''url'' TString,
              required ''readonly'' TBoolean]"

fun Pick :: "ts_type \<Rightarrow> string list \<Rightarrow> ts_type" where
  "Pick (TObject props) names = TObject (filter (\<lambda>p. fst p \<in> set names) props)"
| "Pick t names = t"

text \<open>
  Modelled from the spec: \<open>ReqEmpty\<close>, which routes.ts imports from the package's utils.
  The two list operations take no arguments (4.4 of the specification), so their request
  is the object type without properties.
\<close>

definition ReqEmpty :: ts_type where
  "ReqEmpty = TObject []"

definition ReqTypes :: "(string \<times> ts_type) list" where
  "ReqTypes =
     [(''listKeys'', ReqEmpty),
      (''importKeystores'',
         TObject [required ''body''
           (TObject [required ''keystores'' (TArray KeystoreStr),
                     required ''passwords'' (TArray TString),
                     optional ''slashing_protection'' SlashingProtectionData])]),
      (''deleteKeys'',
         TObject [required ''body'' (TObject [required ''pubkeys'' (TArray TString)])]),
      (''listRemoteKeys'', ReqEmpty),
      (''importRemoteKeys'',
         TObject [required ''body''
           (TObject [required ''remote_keys''
              (TArray (Pick SignerDefinition [''pubkey'', ''url'']))])]),
      (''deleteRemoteKeys'',
         TObject [required ''body'' (TObject [required ''pubkeys'' (TArray TString)])]),
      (''listFeeRecipient'',
         TObject [required ''params'' (TObject [required ''pubkey'' TString])]),
      (''setFeeRecipient'',
         TObject [required ''params'' (TObject [required ''pubkey'' TString]),
                  required ''body'' (TObject [required ''ethaddress'' TString])]),
      (''deleteFeeRecipient'',
         TObject [required ''params'' (TObject [required ''pubkey'' TString])]),
      (''getGasLimit'',
         TObject [required ''params'' (TObject [required ''pubkey'' TString])]),
      (''setGasLimit'',
         TObject [required ''params'' (TObject [required ''pubkey'' TString]),
                  required ''body'' (TObject [required ''gas_limit'' TString])]),
      (''deleteGasLimit'',
         TObject [required ''params'' (TObject [required ''pubkey'' TString])])]"

text \<open>
  The wire shape of an operation: the HTTP method and path of its route together with its
  request type.
\<close>

definition wireShape :: "string \<Rightarrow> (http_method \<times> string \<times> ts_type) option" where
  "wireShape name =
     (case (map_of routesData name, map_of ReqTypes name) of
        (Some r, Some t) \<Rightarrow> Some (route_method r, url r, t)
      | _ \<Rightarrow> None)"

subsection \<open>Return types\<close>

text \<open>
  What \<open>getReturnTypes\<close> (lines 330 to 351) builds. \<open>jsonType\<close> and
  \<open>ContainerData\<close> come from the package's utils, \<open>ContainerType\<close> from the ssz library,
  \<open>stringType\<close> and \<open>ssz.UintNum64\<close> from the types package; here they are the
  constructors of the descriptions they build. A container type is the list of its
  fields, in the order written, and its options.
\<close>

datatype ssz_type = stringType | UintNum64

record ContainerType =
  container_fields :: "(string \<times> ssz_type) list"
  jsonCase :: string

datatype return_type = jsonType string | ContainerData ContainerType

definition getReturnTypes :: "(string \<times> return_type) list" where
  "getReturnTypes =
     [(''listKeys'', jsonType ''snake''),
      (''importKeystores'', jsonType ''snake''),
      (''deleteKeys'', jsonType ''snake''),
      (''listRemoteKeys'', jsonType ''snake''),
      (''importRemoteKeys'', jsonType ''snake''),
      (''deleteRemoteKeys'', jsonType ''snake''),
      (''listFeeRecipient'', jsonType ''snake''),
      (''getGasLimit'',
         ContainerData
           \<lparr>container_fields = [(''pubkey'', stringType), (''gasLimit'', UintNum64)],
            jsonCase = ''eth2''\<rparr>)]"

definition returnTypes_other_than :: "string \<Rightarrow> (string \<times> return_type) list" where
  "returnTypes_other_than name = filter (\<lambda>e. fst e \<noteq> name) getReturnTypes"

text \<open>
  Modelled from the spec: the values of \<open>ssz.UintNum64\<close>, which is declared in the types
  package, outside this file. The specification gives the unsigned 64-bit integer range;
  a string field has no numeric range.
\<close>

fun uintRange :: "ssz_type \<Rightarrow> (int \<times> int) option" where
  "uintRange UintNum64 = Some (0, 2 ^ 64 - 1)"
| "uintRange stringType = None"

subsection \<open>Key deletion\<close>

text \<open>
  The result of a batch operation is one \<open>ResponseStatus\<close> per item (lines 56 to 59);
  \<open>deleteKeys\<close> returns these together with the slashing protection data (lines 163
  to 168). The slashing protection data is one interchange document in the source; here
  it is the list of the records the document carries, each under its pubkey.
\<close>

record 'status ResponseStatus =
  status :: 'status
  message :: "string option"

record DeleteKeysResponse =
  data :: "DeletionStatus ResponseStatus list"
  slashingProtection :: "(string \<times> string) list"

text \<open>
  Modelled from the spec: the keymanager's persistent store. routes.ts declares
  \<open>deleteKeys\<close> in the type \<open>Api\<close> only; the implementation and the stores are
  outside this file. The specification speaks of keys that are known and in active use,
  keys that are known and no longer active, and keys that were never known, and of one
  slashing-protection record per pubkey, owned by the store. An entry of the store is a
  known key: whether it is active, and its slashing-protection record. Pubkeys are
  compared as they are given.
\<close>

record KeyEntry =
  active :: bool
  slashingRecord :: string

type_synonym Store = "string \<rightharpoonup> KeyEntry"

text \<open>
  Modelled from the spec: the transaction of \<open>deleteKeys\<close> for one item of the request
  (4.4 of the specification, and the comments of lines 23 to 32 and 142 to 168). For a key
  in active use, step (1) disables signing; \<open>stopped\<close> says whether this attempt
  succeeds, and \<open>error\<close> is the status if it does not. Only then step (2) fetches the
  record, which stays in the store, and the key is marked as no longer active: status
  \<open>deleted\<close>. A known key that is not active gives \<open>not_active\<close> and its record; a
  pubkey never known gives \<open>not_found\<close> and no record. The function returns the status,
  the records fetched, and the new store.
\<close>

definition deleteKey ::
  "bool \<Rightarrow> Store \<Rightarrow> string \<Rightarrow> DeletionStatus \<times> (string \<times> string) list \<times> Store" where
  "deleteKey stopped st pk =
     (case st pk of
        None \<Rightarrow> (DeletionStatus_not_found, [], st)
      | Some k \<Rightarrow>
          if active k then
            (if stopped
             then (DeletionStatus_deleted, [(pk, slashingRecord k)],
                   st(pk \<mapsto> k\<lparr>active := False\<rparr>))
             else (DeletionStatus_error, [], st))
          else (DeletionStatus_not_active, [(pk, slashingRecord k)], st))"

text \<open>
  Modelled from the spec: \<open>deleteKeys\<close> runs the transaction for each item of the
  request in order, and answers with one status per item, in the same order, and the
  records fetched. Items are independent (5 and 7 of the specification): step (1) may
  fail for one item and succeed for another, also for the same pubkey, so its outcome is
  given per item, \<open>stopSigning i\<close> for item \<open>i\<close>. The optional message of a status is
  left empty.
\<close>

fun deleteKeys ::
  "(nat \<Rightarrow> bool) \<Rightarrow> Store \<Rightarrow> string list \<Rightarrow> DeleteKeysResponse \<times> Store" where
  "deleteKeys stopSigning st [] = (\<lparr>data = [], slashingProtection = []\<rparr>, st)"
| "deleteKeys stopSigning st (pk # pks) =
     (case deleteKey (stopSigning 0) st pk of
        (s, recs, st') \<Rightarrow>
          (case deleteKeys (\<lambda>i. stopSigning (Suc i)) st' pks of
             (r, st'') \<Rightarrow>
               (\<lparr>data = \<lparr>status = s, message = None\<rparr> # data r,
                 slashingProtection = recs @ slashingProtection r\<rparr>, st'')))"

text \<open>
  The store after a sequence of \<open>deleteKeys\<close> calls, each with its own pubkeys and its
  own outcomes of step (1).
\<close>

fun deleteKeysCalls :: "Store \<Rightarrow> ((nat \<Rightarrow> bool) \<times> string list) list \<Rightarrow> Store" where
  "deleteKeysCalls st [] = st"
| "deleteKeysCalls st (c # cs) = deleteKeysCalls (snd (deleteKeys (fst c) st (snd c))) cs"

text \<open>
  Reading a response: the record returned for a pubkey, and the status of item \<open>i\<close>.
  Reading the store: the record it holds for a pubkey.
\<close>

definition slashingProtectionFor :: "DeleteKeysResponse \<Rightarrow> string \<Rightarrow> string option" where
  "slashingProtectionFor r pk = map_of (slashingProtection r) pk"

definition statusAt :: "DeleteKeysResponse \<Rightarrow> nat \<Rightarrow> DeletionStatus" where
  "statusAt r i = status (data r ! i)"

definition recordOf :: "Store \<Rightarrow> string \<Rightarrow> string option" where
  "recordOf st pk = map_option slashingRecord (st pk)"

text \<open>A pubkey that is known and inactive, with record \<open>rec\<close>.\<close>

definition retained :: "Store \<Rightarrow> string \<Rightarrow> string \<Rightarrow> bool" where
  "retained st pk rec =
     (case st pk of None \<Rightarrow> False | Some k \<Rightarrow> \<not> active k \<and> slashingRecord k = rec)"

text \<open>
  A store for the examples: the key A is known and active, with a record; no other key
  is known. Step (1) succeeds for every item, or fails for the first item only.
\<close>

definition pubkeyA :: string where
  "pubkeyA = ''0xaa''"

definition pubkeyB :: string where
  "pubkeyB = ''0xbb''"

definition exampleStore :: Store where
  "exampleStore = [pubkeyA \<mapsto> \<lparr>active = True, slashingRecord = ''record of A''\<rparr>]"

definition stopSucceeds :: "nat \<Rightarrow> bool" where
  "stopSucceeds i = True"

definition stopFailsFirst :: "nat \<Rightarrow> bool" where
  "stopFailsFirst i = (i \<noteq> 0)"

subsection \<open>JavaScript numbers\<close>

text \<open>
  \<open>gasLimit\<close> is a JavaScript \<open>number\<close>: an IEEE 754 double. A finite double other
  than the negative zero is given by its value, a rational number; the other values are
  NaN, the two infinities and the negative zero. \<open>Finite 0\<close> is the positive zero.
\<close>

datatype number = NaN | Infinity | NegInfinity | NegZero | Finite rat

text \<open>
  \<open>digitCount b x\<close> is the number of digits of the positive integer \<open>x\<close> in base \<open>b\<close>.
  For a positive rational \<open>q\<close>, \<open>binaryExponent q\<close> is the \<open>e\<close> with
  \<open>2 ^ e \<le> q < 2 ^ (e + 1)\<close>, and \<open>decimalExponent q\<close> is the \<open>n\<close> with
  \<open>10 ^ (n - 1) \<le> q < 10 ^ n\<close>.
\<close>

function digitCount :: "int \<Rightarrow> int \<Rightarrow> nat" where
  "digitCount b x = (if 0 < x \<and> 1 < b then Suc (digitCount b (x div b)) else 0)"
  by pat_completeness auto
termination
  by (relation "measure (\<lambda>(b, x). nat x)") (auto simp: int_div_less_self)

declare digitCount.simps [simp del]

definition binaryExponent :: "rat \<Rightarrow> int" where
  "binaryExponent q =
     (if 1 \<le> q then int (digitCount 2 \<lfloor>q\<rfloor>) - 1
      else let m = digitCount 2 \<lfloor>1 / q\<rfloor> - 1 in
           if q = 1 / 2 ^ m then - int m else - int m - 1)"

definition decimalExponent :: "rat \<Rightarrow> int" where
  "decimalExponent x =
     (if 1 \<le> x then int (digitCount 10 \<lfloor>x\<rfloor>)
      else let d = digitCount 10 \<lfloor>1 / x\<rfloor> in
           if x = 1 / 10 ^ (d - 1) then 2 - int d else 1 - int d)"

text \<open>
  The Number value for a real \<open>x\<close> (ECMAScript 6.1.6.1): the double nearest to \<open>x\<close>,
  the one with the even significand if two are equally near; a value that rounds to
  \<open>2 ^ 1024\<close> or beyond becomes an infinity, and a negative value that rounds to zero
  becomes the negative zero. Doubles with binary exponent \<open>e\<close> are the multiples of
  \<open>2 ^ (e - 52)\<close>, and the exponent is at least \<open>- 1022\<close>.
\<close>

definition roundHalfEven :: "rat \<Rightarrow> int" where
  "roundHalfEven m =
     (let f = \<lfloor>m\<rfloor>; r = m - of_int f in
      if r < 1 / 2 then f else if 1 / 2 < r then f + 1 else if even f then f else f + 1)"

definition numberValue :: "rat \<Rightarrow> number" where
  "numberValue x =
     (if x = 0 then Finite 0
      else let a = \<bar>x\<bar>;
               e = max (binaryExponent a) (- 1022);
               ulp = 2 powi (e - 52);
               v = of_int (roundHalfEven (a / ulp)) * ulp
           in if 2 powi 1024 \<le> v then (if x < 0 then NegInfinity else Infinity)
              else if v = 0 then (if x < 0 then NegZero else Finite 0)
              else Finite (if x < 0 then - v else v))"

text \<open>
  \<open>Number.prototype.toString(10)\<close>, which is also what a template literal does to a
  number (ECMAScript Number::toString). For a positive finite \<open>x\<close> it takes integers
  \<open>n\<close>, \<open>k\<close>, \<open>s\<close> with \<open>k \<ge> 1\<close>, \<open>10 ^ (k - 1) \<le> s < 10 ^ k\<close> and
  \<open>s * 10 ^ (n - k)\<close> a real whose Number value is \<open>x\<close>, with \<open>k\<close> as small as
  possible, and among these the \<open>s * 10 ^ (n - k)\<close> nearest to \<open>x\<close>. For each \<open>k\<close> it
  is enough to try, for \<open>n\<close>, the decimal exponent of \<open>x\<close> and the next integer and, for
  \<open>s\<close>, the two integers around \<open>x / 10 ^ (n - k)\<close>. Seventeen digits identify every
  double, so the search ends at sixteen and the last case takes the seventeen digits
  nearest to \<open>x\<close>.
\<close>

definition digitChar :: "int \<Rightarrow> char" where
  "digitChar d = char_of (48 + d)"

function digitsOf :: "int \<Rightarrow> string" where
  "digitsOf n = (if n < 10 then [digitChar n] else digitsOf (n div 10) @ [digitChar (n mod 10)])"
  by pat_completeness auto
termination
  by (relation "measure nat") (auto simp: int_div_less_self)

declare digitsOf.simps [simp del]

definition representsWith :: "rat \<Rightarrow> nat \<Rightarrow> int \<times> int \<Rightarrow> bool" where
  "representsWith x k c =
     (case c of (n, s) \<Rightarrow>
        10 ^ (k - 1) \<le> s \<and> s < 10 ^ k \<and> numberValue (of_int s * 10 powi (n - int k)) = Finite x)"

definition digitCandidates :: "rat \<Rightarrow> nat \<Rightarrow> (int \<times> int) list" where
  "digitCandidates x k =
     filter (representsWith x k)
       (concat (map (\<lambda>n. let t = x / 10 powi (n - int k) in [(n, \<lfloor>t\<rfloor>), (n, \<lceil>t\<rceil>)])
          [decimalExponent x, decimalExponent x + 1]))"

definition distanceTo :: "rat \<Rightarrow> nat \<Rightarrow> int \<times> int \<Rightarrow> rat" where
  "distanceTo x k c = (case c of (n, s) \<Rightarrow> \<bar>of_int s * 10 powi (n - int k) - x\<bar>)"

definition closer :: "rat \<Rightarrow> nat \<Rightarrow> int \<times> int \<Rightarrow> int \<times> int \<Rightarrow> int \<times> int" where
  "closer x k c1 c2 =
     (if distanceTo x k c2 < distanceTo x k c1 then c2
      else if distanceTo x k c1 < distanceTo x k c2 then c1
      else if even (snd c1) then c1 else c2)"

definition shortestDigits :: "rat \<Rightarrow> int \<times> nat \<times> int" where
  "shortestDigits x =
     (case List.find (\<lambda>k. digitCandidates x k \<noteq> []) [1 ..< 17] of
        Some k \<Rightarrow>
          (case digitCandidates x k of
             c # cs \<Rightarrow> (case foldl (closer x k) c cs of (n, s) \<Rightarrow> (n, k, s)))
      | None \<Rightarrow>
          (decimalExponent x, 17, roundHalfEven (x / 10 powi (decimalExponent x - 17))))"

definition formatDigits :: "int \<times> nat \<times> int \<Rightarrow> string" where
  "formatDigits t =
     (case t of (n, k, s) \<Rightarrow>
        let ds = digitsOf s in
        if int k \<le> n \<and> n \<le> 21 then ds @ replicate (nat (n - int k)) (CHR ''0'')
        else if 0 < n \<and> n \<le> 21 then take (nat n) ds @ ''.'' @ drop (nat n) ds
        else if - 6 < n \<and> n \<le> 0 then ''0.'' @ replicate (nat (- n)) (CHR ''0'') @ ds
        else (if k = 1 then ds else take 1 ds @ ''.'' @ drop 1 ds)
             @ ''e'' @ (if n - 1 < 0 then ''-'' else ''+'') @ digitsOf \<bar>n - 1\<bar>)"

fun toString :: "number \<Rightarrow> string" where
  "toString NaN = ''NaN''"
| "toString Infinity = ''Infinity''"
| "toString NegInfinity = ''-Infinity''"
| "toString NegZero = ''0''"
| "toString (Finite x) =
     (if x = 0 then ''0''
      else if x < 0 then ''-'' @ formatDigits (shortestDigits (- x))
      else formatDigits (shortestDigits x))"

text \<open>
  \<open>String.prototype.trim\<close> removes white space and line terminators at both ends. A
  \<open>char\<close> is a code unit below 256; the white space among these is TAB, LF, VT, FF, CR,
  SP and NBSP.
\<close>

definition isWhiteSpace :: "char \<Rightarrow> bool" where
  "isWhiteSpace c = (of_char c \<in> {9, 10, 11, 12, 13, 32, 160 :: int})"

definition trim :: "string \<Rightarrow> string" where
  "trim s = rev (dropWhile isWhiteSpace (rev (dropWhile isWhiteSpace s)))"

text \<open>
  \<open>Number(string)\<close> (ECMAScript StringToNumber): the string is trimmed; the empty string
  is \<open>+0\<close>; a hexadecimal, octal or binary integer literal (\<open>0x\<close>, \<open>0o\<close>, \<open>0b\<close>,
  without a sign) and a decimal literal (an optional sign, then \<open>Infinity\<close> or digits with
  an optional fraction and an optional exponent) are the Number value of what they
  denote; every other string is \<open>NaN\<close>.
\<close>

definition isDigit :: "char \<Rightarrow> bool" where
  "isDigit c = (48 \<le> (of_char c :: int) \<and> (of_char c :: int) \<le> 57)"

definition digitValue :: "char \<Rightarrow> int" where
  "digitValue c =
     (let u = of_char c :: int in
      if 48 \<le> u \<and> u \<le> 57 then u - 48
      else if 97 \<le> u \<and> u \<le> 102 then u - 87
      else u - 55)"

definition isDigitOfRadix :: "int \<Rightarrow> char \<Rightarrow> bool" where
  "isDigitOfRadix b c =
     (let u = of_char c :: int in
      (48 \<le> u \<and> u \<le> 57 \<or> 97 \<le> u \<and> u \<le> 102 \<or> 65 \<le> u \<and> u \<le> 70) \<and> digitValue c < b)"

definition digitsValue :: "int \<Rightarrow> string \<Rightarrow> int" where
  "digitsValue b cs = foldl (\<lambda>a c. b * a + digitValue c) 0 cs"

definition signedInteger :: "string \<Rightarrow> int option" where
  "signedInteger s =
     (let (neg, ds) = (case s of [] \<Rightarrow> (False, [])
                       | c # t \<Rightarrow> if c = CHR ''-'' then (True, t)
                                  else if c = CHR ''+'' then (False, t) else (False, s))
      in if ds \<noteq> [] \<and> list_all isDigit ds
         then Some (if neg then - digitsValue 10 ds else digitsValue 10 ds)
         else None)"

definition strUnsignedDecimalLiteral :: "string \<Rightarrow> rat option" where
  "strUnsignedDecimalLiteral s =
     (let ip = takeWhile isDigit s; r1 = dropWhile isDigit s;
          (fp, r2) = (case r1 of [] \<Rightarrow> ([], [])
                      | c # t \<Rightarrow> if c = CHR ''.'' then (takeWhile isDigit t, dropWhile isDigit t)
                                 else ([], r1));
          m = of_int (digitsValue 10 ip) + of_int (digitsValue 10 fp) / 10 ^ length fp
      in if ip = [] \<and> fp = [] then None
         else (case r2 of [] \<Rightarrow> Some m
               | c # t \<Rightarrow> if c = CHR ''e'' \<or> c = CHR ''E''
                          then (case signedInteger t of None \<Rightarrow> None
                                | Some e \<Rightarrow> Some (m * 10 powi e))
                          else None))"

definition nonDecimalIntegerLiteral :: "string \<Rightarrow> int option" where
  "nonDecimalIntegerLiteral s =
     (case s of
        c0 # c1 # ds \<Rightarrow>
          if c0 = CHR ''0'' \<and> ds \<noteq> [] then
            (if (c1 = CHR ''x'' \<or> c1 = CHR ''X'') \<and> list_all (isDigitOfRadix 16) ds
               then Some (digitsValue 16 ds)
             else if (c1 = CHR ''o'' \<or> c1 = CHR ''O'') \<and> list_all (isDigitOfRadix 8) ds
               then Some (digitsValue 8 ds)
             else if (c1 = CHR ''b'' \<or> c1 = CHR ''B'') \<and> list_all (isDigitOfRadix 2) ds
               then Some (digitsValue 2 ds)
             else None)
          else None
      | _ \<Rightarrow> None)"

definition strDecimalLiteral :: "string \<Rightarrow> number" where
  "strDecimalLiteral s =
     (let (neg, u) = (case s of [] \<Rightarrow> (False, [])
                      | c # t \<Rightarrow> if c = CHR ''-'' then (True, t)
                                 else if c = CHR ''+'' then (False, t) else (False, s))
      in if u = ''Infinity'' then (if neg then NegInfinity else Infinity)
         else (case strUnsignedDecimalLiteral u of
                 None \<Rightarrow> NaN
               | Some m \<Rightarrow>
                   if neg then (if numberValue m = Finite 0 then NegZero else numberValue (- m))
                   else numberValue m))"

definition StringToNumber :: "string \<Rightarrow> number" where
  "StringToNumber s =
     (let t = trim s in
      if t = [] then Finite 0
      else (case nonDecimalIntegerLiteral t of
              Some v \<Rightarrow> numberValue (of_int v)
            | None \<Rightarrow> strDecimalLiteral t))"

text \<open>\<open>x === y\<close> on numbers, and \<open>Number.isNaN\<close>.\<close>

definition isZero :: "number \<Rightarrow> bool" where
  "isZero x = (x = Finite 0 \<or> x = NegZero)"

definition strictEquals :: "number \<Rightarrow> number \<Rightarrow> bool" where
  "strictEquals x y = (x \<noteq> NaN \<and> y \<noteq> NaN \<and> (x = y \<or> isZero x \<and> isZero y))"

definition isNaN :: "number \<Rightarrow> bool" where
  "isNaN x = (x = NaN)"

text \<open>
  The values of the type \<open>number\<close> are the doubles: NaN, the infinities, the two zeros,
  and the finite values that rounding to a double leaves unchanged.
\<close>

definition isDouble :: "number \<Rightarrow> bool" where
  "isDouble g = (case g of Finite x \<Rightarrow> numberValue x = Finite x | _ \<Rightarrow> True)"

subsection \<open>Input validation\<close>

text \<open>
  \<open>parseGasLimit\<close> (lines 353 to 362) takes a \<open>string | number\<close>. \<open>typeof\<close>, the
  template literal and \<open>Number(...)\<close> on a value of this type:
\<close>

datatype gas_input = StringInput string | NumberInput number

fun typeof :: "gas_input \<Rightarrow> string" where
  "typeof (StringInput s) = ''string''"
| "typeof (NumberInput x) = ''number''"

fun templateString :: "gas_input \<Rightarrow> string" where
  "templateString (StringInput s) = s"
| "templateString (NumberInput x) = toString x"

fun Number :: "gas_input \<Rightarrow> number" where
  "Number (StringInput s) = StringToNumber s"
| "Number (NumberInput x) = x"

datatype error = Error string

definition parseGasLimit :: "gas_input \<Rightarrow> error + number" where
  "parseGasLimit gasLimitInput =
     (if (typeof gasLimitInput \<noteq> ''string'' \<and> typeof gasLimitInput \<noteq> ''number'')
         \<or> trim (templateString gasLimitInput) = []
      then Inl (Error ''Not valid Gas Limit'')
      else let gasLimit = Number gasLimitInput in
           if isNaN gasLimit \<or> strictEquals gasLimit (Finite 0)
           then Inl (Error (''Gas Limit is not valid gasLimit='' @ toString gasLimit))
           else Inr gasLimit)"

text \<open>An unsigned integer among the numbers: a finite, non-negative, integral value.\<close>

fun isUnsignedInteger :: "number \<Rightarrow> bool" where
  "isUnsignedInteger (Finite x) = (0 \<le> x \<and> of_int \<lfloor>x\<rfloor> = x)"
| "isUnsignedInteger x = False"

subsection \<open>Request serializers\<close>

text \<open>
  The wire requests of \<open>ReqTypes\<close> as records. A request has \<open>params\<close> and \<open>body\<close>;
  the part a request type does not have is the unit value. An element of \<open>remote_keys\<close>,
  of type \<open>Pick<SignerDefinition, "pubkey" | "url">\<close>, is the pair of its pubkey and its
  url.
\<close>

record ('p, 'b) Req =
  params :: 'p
  body :: 'b

record Params =
  pubkey :: string

record ImportKeystoresBody =
  keystores :: "string list"
  passwords :: "string list"
  slashing_protection :: "string option"

record PubkeysBody =
  pubkeys :: "string list"

record RemoteKeysBody =
  remote_keys :: "(string \<times> string) list"

record EthaddressBody =
  ethaddress :: string

record GasLimitBody =
  gas_limit :: string

text \<open>
  Modelled from the spec: \<open>reqEmpty\<close>, which routes.ts imports from the package's utils
  for the two operations without arguments. It writes the request without params and
  body, and parses it to the empty argument list.
\<close>

definition reqEmpty_writeReq :: "unit \<Rightarrow> (unit, unit) Req" where
  "reqEmpty_writeReq u = \<lparr>params = (), body = ()\<rparr>"

definition reqEmpty_parseReq :: "(unit, unit) Req \<Rightarrow> unit" where
  "reqEmpty_parseReq r = ()"

text \<open>
  The serializers of \<open>getReqSerializers\<close> (lines 255 to 327), one \<open>writeReq\<close> and one
  \<open>parseReq\<close> per operation. The arguments of an operation are a tuple. Only the
  \<open>parseReq\<close> of \<open>setGasLimit\<close> can throw.
\<close>

definition listKeys_writeReq :: "unit \<Rightarrow> (unit, unit) Req" where
  "listKeys_writeReq = reqEmpty_writeReq"

definition listKeys_parseReq :: "(unit, unit) Req \<Rightarrow> unit" where
  "listKeys_parseReq = reqEmpty_parseReq"

definition importKeystores_writeReq ::
  "string list \<times> string list \<times> string option \<Rightarrow> (unit, ImportKeystoresBody) Req" where
  "importKeystores_writeReq a =
     (case a of (ks, pws, sp) \<Rightarrow>
        \<lparr>params = (), body = \<lparr>keystores = ks, passwords = pws, slashing_protection = sp\<rparr>\<rparr>)"

definition importKeystores_parseReq ::
  "(unit, ImportKeystoresBody) Req \<Rightarrow> string list \<times> string list \<times> string option" where
  "importKeystores_parseReq r =
     (keystores (body r), passwords (body r), slashing_protection (body r))"

definition deleteKeys_writeReq :: "string list \<Rightarrow> (unit, PubkeysBody) Req" where
  "deleteKeys_writeReq pks = \<lparr>params = (), body = \<lparr>pubkeys = pks\<rparr>\<rparr>"

definition deleteKeys_parseReq :: "(unit, PubkeysBody) Req \<Rightarrow> string list" where
  "deleteKeys_parseReq r = pubkeys (body r)"

definition listRemoteKeys_writeReq :: "unit \<Rightarrow> (unit, unit) Req" where
  "listRemoteKeys_writeReq = reqEmpty_writeReq"

definition listRemoteKeys_parseReq :: "(unit, unit) Req \<Rightarrow> unit" where
  "listRemoteKeys_parseReq = reqEmpty_parseReq"

definition importRemoteKeys_writeReq ::
  "(string \<times> string) list \<Rightarrow> (unit, RemoteKeysBody) Req" where
  "importRemoteKeys_writeReq rks = \<lparr>params = (), body = \<lparr>remote_keys = rks\<rparr>\<rparr>"

definition importRemoteKeys_parseReq ::
  "(unit, RemoteKeysBody) Req \<Rightarrow> (string \<times> string) list" where
  "importRemoteKeys_parseReq r = remote_keys (body r)"

definition deleteRemoteKeys_writeReq :: "string list \<Rightarrow> (unit, PubkeysBody) Req" where
  "deleteRemoteKeys_writeReq pks = \<lparr>params = (), body = \<lparr>pubkeys = pks\<rparr>\<rparr>"

definition deleteRemoteKeys_parseReq :: "(unit, PubkeysBody) Req \<Rightarrow> string list" where
  "deleteRemoteKeys_parseReq r = pubkeys (body r)"

definition listFeeRecipient_writeReq :: "string \<Rightarrow> (Params, unit) Req" where
  "listFeeRecipient_writeReq pk = \<lparr>params = \<lparr>pubkey = pk\<rparr>, body = ()\<rparr>"

definition listFeeRecipient_parseReq :: "(Params, unit) Req \<Rightarrow> string" where
  "listFeeRecipient_parseReq r = pubkey (params r)"

definition setFeeRecipient_writeReq :: "string \<times> string \<Rightarrow> (Params, EthaddressBody) Req" where
  "setFeeRecipient_writeReq a =
     (case a of (pk, addr) \<Rightarrow> \<lparr>params = \<lparr>pubkey = pk\<rparr>, body = \<lparr>ethaddress = addr\<rparr>\<rparr>)"

definition setFeeRecipient_parseReq :: "(Params, EthaddressBody) Req \<Rightarrow> string \<times> string" where
  "setFeeRecipient_parseReq r = (pubkey (params r), ethaddress (body r))"

definition deleteFeeRecipient_writeReq :: "string \<Rightarrow> (Params, unit) Req" where
  "deleteFeeRecipient_writeReq pk = \<lparr>params = \<lparr>pubkey = pk\<rparr>, body = ()\<rparr>"

definition deleteFeeRecipient_parseReq :: "(Params, unit) Req \<Rightarrow> string" where
  "deleteFeeRecipient_parseReq r = pubkey (params r)"

definition getGasLimit_writeReq :: "string \<Rightarrow> (Params, unit) Req" where
  "getGasLimit_writeReq pk = \<lparr>params = \<lparr>pubkey = pk\<rparr>, body = ()\<rparr>"

definition getGasLimit_parseReq :: "(Params, unit) Req \<Rightarrow> string" where
  "getGasLimit_parseReq r = pubkey (params r)"

definition setGasLimit_writeReq :: "string \<times> number \<Rightarrow> (Params, GasLimitBody) Req" where
  "setGasLimit_writeReq a =
     (case a of (pk, gasLimit) \<Rightarrow>
        \<lparr>params = \<lparr>pubkey = pk\<rparr>, body = \<lparr>gas_limit = toString gasLimit\<rparr>\<rparr>)"

definition setGasLimit_parseReq ::
  "(Params, GasLimitBody) Req \<Rightarrow> error + string \<times> number" where
  "setGasLimit_parseReq r =
     (case parseGasLimit (StringInput (gas_limit (body r))) of
        Inl e \<Rightarrow> Inl e
      | Inr gasLimit \<Rightarrow> Inr (pubkey (params r), gasLimit))"

definition deleteGasLimit_writeReq :: "string \<Rightarrow> (Params, unit) Req" where
  "deleteGasLimit_writeReq pk = \<lparr>params = \<lparr>pubkey = pk\<rparr>, body = ()\<rparr>"

definition deleteGasLimit_parseReq :: "(Params, unit) Req \<Rightarrow> string" where
  "deleteGasLimit_parseReq r = pubkey (params r)"

text \<open>
  Encoding what \<open>parseReq\<close> returned: the request written from the parsed arguments, or
  the error \<open>parseReq\<close> threw.
\<close>

definition setGasLimit_reencode ::
  "(Params, GasLimitBody) Req \<Rightarrow> error + (Params, GasLimitBody) Req" where
  "setGasLimit_reencode r =
     (case setGasLimit_parseReq r of
        Inl e \<Rightarrow> Inl e
      | Inr a \<Rightarrow> Inr (setGasLimit_writeReq a))"

section \<open>Properties\<close>

subsection \<open>Status taxonomy\<close>

lemma ImportStatus_UNIV:
  "(UNIV :: ImportStatus set) =
     {ImportStatus_imported, ImportStatus_duplicate, ImportStatus_error}"
proof -
  have "x \<in> {ImportStatus_imported, ImportStatus_duplicate, ImportStatus_error}" for x
    by (cases x) simp_all
  then show ?thesis by blast
qed

lemma DeletionStatus_UNIV:
  "(UNIV :: DeletionStatus set) =
     {DeletionStatus_deleted, DeletionStatus_not_active, DeletionStatus_not_found,
      DeletionStatus_error}"
proof -
  have "x \<in> {DeletionStatus_deleted, DeletionStatus_not_active, DeletionStatus_not_found,
      DeletionStatus_error}" for x
    by (cases x) simp_all
  then show ?thesis by blast
qed

lemma ImportRemoteKeyStatus_UNIV:
  "(UNIV :: ImportRemoteKeyStatus set) =
     {ImportRemoteKeyStatus_imported, ImportRemoteKeyStatus_duplicate,
      ImportRemoteKeyStatus_error}"
proof -
  have "x \<in> {ImportRemoteKeyStatus_imported, ImportRemoteKeyStatus_duplicate,
      ImportRemoteKeyStatus_error}" for x
    by (cases x) simp_all
  then show ?thesis by blast
qed

lemma DeleteRemoteKeyStatus_UNIV:
  "(UNIV :: DeleteRemoteKeyStatus set) =
     {DeleteRemoteKeyStatus_deleted, DeleteRemoteKeyStatus_not_found,
      DeleteRemoteKeyStatus_error}"
proof -
  have "x \<in> {DeleteRemoteKeyStatus_deleted, DeleteRemoteKeyStatus_not_found,
      DeleteRemoteKeyStatus_error}" for x
    by (cases x) simp_all
  then show ?thesis by blast
qed

text \<open>
  C6. The status taxonomy is four closed enumerations with exactly the stated members:
  local import has the values imported, duplicate, error; local delete has deleted,
  not_active, not_found, error; remote import has imported, duplicate, error; remote
  delete has deleted, not_found, error. Each enumeration has no other member, and its
  members have pairwise different values.
\<close>

theorem status_taxonomy_closed:
  "ImportStatus_value ` UNIV = {''imported'', ''duplicate'', ''error''}
   \<and> DeletionStatus_value ` UNIV = {''deleted'', ''not_active'', ''not_found'', ''error''}
   \<and> ImportRemoteKeyStatus_value ` UNIV = {''imported'', ''duplicate'', ''error''}
   \<and> DeleteRemoteKeyStatus_value ` UNIV = {''deleted'', ''not_found'', ''error''}
   \<and> card (UNIV :: ImportStatus set) = 3
   \<and> card (UNIV :: DeletionStatus set) = 4
   \<and> card (UNIV :: ImportRemoteKeyStatus set) = 3
   \<and> card (UNIV :: DeleteRemoteKeyStatus set) = 3
   \<and> inj ImportStatus_value \<and> inj DeletionStatus_value
   \<and> inj ImportRemoteKeyStatus_value \<and> inj DeleteRemoteKeyStatus_value"
proof -
  have i1: "inj ImportStatus_value"
  proof (rule injI)
    fix x y assume "ImportStatus_value x = ImportStatus_value y"
    then show "x = y" by (cases x; cases y) simp_all
  qed
  have i2: "inj DeletionStatus_value"
  proof (rule injI)
    fix x y assume "DeletionStatus_value x = DeletionStatus_value y"
    then show "x = y" by (cases x; cases y) simp_all
  qed
  have i3: "inj ImportRemoteKeyStatus_value"
  proof (rule injI)
    fix x y assume "ImportRemoteKeyStatus_value x = ImportRemoteKeyStatus_value y"
    then show "x = y" by (cases x; cases y) simp_all
  qed
  have i4: "inj DeleteRemoteKeyStatus_value"
  proof (rule injI)
    fix x y assume "DeleteRemoteKeyStatus_value x = DeleteRemoteKeyStatus_value y"
    then show "x = y" by (cases x; cases y) simp_all
  qed
  have v1: "ImportStatus_value ` UNIV = {''imported'', ''duplicate'', ''error''}"
    unfolding ImportStatus_UNIV by simp
  have v2: "DeletionStatus_value ` UNIV
      = {''deleted'', ''not_active'', ''not_found'', ''error''}"
    unfolding DeletionStatus_UNIV by simp
  have v3: "ImportRemoteKeyStatus_value ` UNIV = {''imported'', ''duplicate'', ''error''}"
    unfolding ImportRemoteKeyStatus_UNIV by simp
  have v4: "DeleteRemoteKeyStatus_value ` UNIV = {''deleted'', ''not_found'', ''error''}"
    unfolding DeleteRemoteKeyStatus_UNIV by simp
  have c1: "card (UNIV :: ImportStatus set) = 3"
    unfolding ImportStatus_UNIV by simp
  have c2: "card (UNIV :: DeletionStatus set) = 4"
    unfolding DeletionStatus_UNIV by simp
  have c3: "card (UNIV :: ImportRemoteKeyStatus set) = 3"
    unfolding ImportRemoteKeyStatus_UNIV by simp
  have c4: "card (UNIV :: DeleteRemoteKeyStatus set) = 3"
    unfolding DeleteRemoteKeyStatus_UNIV by simp
  from i1 i2 i3 i4 v1 v2 v3 v4 c1 c2 c3 c4 show ?thesis by blast
qed

subsection \<open>Route table\<close>

lemma route_names_eq:
  "route_names =
     [''listKeys'', ''importKeystores'', ''deleteKeys'',
      ''listRemoteKeys'', ''importRemoteKeys'', ''deleteRemoteKeys'',
      ''listFeeRecipient'', ''setFeeRecipient'', ''deleteFeeRecipient'',
      ''getGasLimit'', ''setGasLimit'', ''deleteGasLimit'']"
  by (simp add: route_names_def routesData_def)

lemma distinct_Api_operations: "distinct Api_operations"
  by (simp add: Api_operations_def)

text \<open>
  C8. The route table is in one-to-one correspondence with the operations of the Api
  type: the property names of routesData are pairwise different, they are exactly the
  method names of Api (which are pairwise different too), and there are twelve of each.
\<close>

theorem routes_one_to_one_with_Api:
  "distinct route_names \<and> distinct Api_operations
   \<and> set route_names = set Api_operations
   \<and> length routesData = 12 \<and> length Api_operations = 12"
proof -
  have "route_names = Api_operations"
    by (simp add: route_names_eq Api_operations_def)
  moreover have "length routesData = 12"
    by (simp add: routesData_def)
  moreover have "length Api_operations = 12"
    by (simp add: Api_operations_def)
  ultimately show ?thesis
    using distinct_Api_operations by simp
qed

text \<open>
  C10. The (method, url) pairs of the twelve routes are pairwise different, although
  url strings are shared: the three keystore operations share /eth/v1/keystores and the
  three remote-key operations share /eth/v1/remotekeys.
\<close>

theorem dispatch_keys_distinct:
  "distinct dispatch_keys \<and> length dispatch_keys = 12
   \<and> routes_with_url ''/eth/v1/keystores'' = [''listKeys'', ''importKeystores'', ''deleteKeys'']
   \<and> routes_with_url ''/eth/v1/remotekeys''
       = [''listRemoteKeys'', ''importRemoteKeys'', ''deleteRemoteKeys'']"
  by (simp add: dispatch_keys_def dispatch_key_def routes_with_url_def routesData_def)

text \<open>
  C4, as stated, fails: the claim counts three routes that override the success code to
  202 and three that override it to 204; the table has two of each.
\<close>

theorem statusOk_three_overrides_counterexample:
  "\<not> (length (routes_with_statusOk (Some 202)) = 3
      \<and> length (routes_with_statusOk (Some 204)) = 3)"
  by (simp add: routes_with_statusOk_def routesData_def)

text \<open>
  C4, amended. Exactly two routes override the success code to 202, setFeeRecipient and
  setGasLimit; exactly two override it to 204, deleteFeeRecipient and deleteGasLimit;
  the other eight routes write no override and so have the default success code 200.
\<close>

theorem statusOk_overrides:
  "routes_with_statusOk (Some 202) = [''setFeeRecipient'', ''setGasLimit'']
   \<and> routes_with_statusOk (Some 204) = [''deleteFeeRecipient'', ''deleteGasLimit'']
   \<and> routes_with_statusOk None
       = [''listKeys'', ''importKeystores'', ''deleteKeys'',
          ''listRemoteKeys'', ''importRemoteKeys'', ''deleteRemoteKeys'',
          ''listFeeRecipient'', ''getGasLimit'']
   \<and> routes_with_successStatus 200 = routes_with_statusOk None
   \<and> routes_with_successStatus 202 = routes_with_statusOk (Some 202)
   \<and> routes_with_successStatus 204 = routes_with_statusOk (Some 204)
   \<and> length routesData = 2 + 2 + 8"
  by (simp add: routes_with_statusOk_def routes_with_successStatus_def successStatus_def
      routesData_def)


subsection \<open>Request and return types\<close>

text \<open>
  C9. The wire request shapes are: import-keystores, POST, body with keystores: string[],
  passwords: string[] and an optional slashing_protection: string; delete-keys, DELETE, body
  with pubkeys: string[]; import-remote-keys, POST, body with remote_keys, an array of
  {pubkey, url}; delete-remote-keys, DELETE, body with pubkeys: string[]; the
  fee-recipient and gas-limit routes take pubkey as a path parameter, and the two set
  operations have the bodies {ethaddress} and {gas_limit: string}.
\<close>

theorem wire_request_shapes:
  "wireShape ''importKeystores'' =
     Some (POST, ''/eth/v1/keystores'',
       TObject [(''body'', False,
         TObject [(''keystores'', False, TArray TString),
                  (''passwords'', False, TArray TString),
                  (''slashing_protection'', True, TString)])])
   \<and> wireShape ''deleteKeys'' =
     Some (DELETE, ''/eth/v1/keystores'',
       TObject [(''body'', False, TObject [(''pubkeys'', False, TArray TString)])])
   \<and> wireShape ''importRemoteKeys'' =
     Some (POST, ''/eth/v1/remotekeys'',
       TObject [(''body'', False,
         TObject [(''remote_keys'', False,
           TArray (TObject [(''pubkey'', False, TString), (''url'', False, TString)]))])])
   \<and> wireShape ''deleteRemoteKeys'' =
     Some (DELETE, ''/eth/v1/remotekeys'',
       TObject [(''body'', False, TObject [(''pubkeys'', False, TArray TString)])])
   \<and> wireShape ''listFeeRecipient'' =
     Some (GET, ''/eth/v1/validator/{pubkey}/feerecipient'',
       TObject [(''params'', False, TObject [(''pubkey'', False, TString)])])
   \<and> wireShape ''setFeeRecipient'' =
     Some (POST, ''/eth/v1/validator/{pubkey}/feerecipient'',
       TObject [(''params'', False, TObject [(''pubkey'', False, TString)]),
                (''body'', False, TObject [(''ethaddress'', False, TString)])])
   \<and> wireShape ''deleteFeeRecipient'' =
     Some (DELETE, ''/eth/v1/validator/{pubkey}/feerecipient'',
       TObject [(''params'', False, TObject [(''pubkey'', False, TString)])])
   \<and> wireShape ''getGasLimit'' =
     Some (GET, ''/eth/v1/validator/{pubkey}/gas_limit'',
       TObject [(''params'', False, TObject [(''pubkey'', False, TString)])])
   \<and> wireShape ''setGasLimit'' =
     Some (POST, ''/eth/v1/validator/{pubkey}/gas_limit'',
       TObject [(''params'', False, TObject [(''pubkey'', False, TString)]),
                (''body'', False, TObject [(''gas_limit'', False, TString)])])
   \<and> wireShape ''deleteGasLimit'' =
     Some (DELETE, ''/eth/v1/validator/{pubkey}/gas_limit'',
       TObject [(''params'', False, TObject [(''pubkey'', False, TString)])])"
  by (simp add: wireShape_def routesData_def ReqTypes_def required_def optional_def
      KeystoreStr_def SlashingProtectionData_def PubkeyHex_def SignerDefinition_def)

text \<open>
  C7. Among the return-type encodings getGasLimit is the only exception: its result is a
  typed container with the fields pubkey (a string) and gasLimit (UintNum64, the unsigned
  64-bit integers), in this order, in the eth2 convention; every other return type is
  plain JSON in the snake convention. The operations with a return type are the eight
  that return data; the four set and delete operations on fee recipient and gas limit
  return nothing and have no entry.
\<close>

theorem getGasLimit_only_exception:
  "map_of getReturnTypes ''getGasLimit'' =
     Some (ContainerData
       \<lparr>container_fields = [(''pubkey'', stringType), (''gasLimit'', UintNum64)], jsonCase = ''eth2''\<rparr>)
   \<and> uintRange UintNum64 = Some (0, 18446744073709551615)
   \<and> map snd (returnTypes_other_than ''getGasLimit'') = replicate 7 (jsonType ''snake'')
   \<and> map fst getReturnTypes =
       [''listKeys'', ''importKeystores'', ''deleteKeys'',
        ''listRemoteKeys'', ''importRemoteKeys'', ''deleteRemoteKeys'',
        ''listFeeRecipient'', ''getGasLimit'']"
  by (simp add: getReturnTypes_def returnTypes_other_than_def numeral_eq_Suc)

subsection \<open>Key deletion\<close>

lemma deleteKey_other:
  "deleteKey b st pk = (s, recs, st') \<Longrightarrow> q \<noteq> pk \<Longrightarrow> st' q = st q"
  by (auto simp: deleteKey_def split: option.splits if_splits)

lemma deleteKey_retained:
  "deleteKey b st pk = (s, recs, st') \<Longrightarrow> retained st q rec \<Longrightarrow> retained st' q rec"
  by (cases "q = pk") (auto simp: deleteKey_def retained_def split: option.splits if_splits)

lemma deleteKeys_retained:
  "deleteKeys stop st pks = (r, st') \<Longrightarrow> retained st q rec \<Longrightarrow> retained st' q rec"
proof (induction pks arbitrary: stop st r st')
  case Nil
  then show ?case by simp
next
  case (Cons pk pks)
  obtain s recs st1 where k: "deleteKey (stop 0) st pk = (s, recs, st1)"
    by (cases "deleteKey (stop 0) st pk") auto
  obtain r2 st2 where t: "deleteKeys (\<lambda>i. stop (Suc i)) st1 pks = (r2, st2)"
    by (cases "deleteKeys (\<lambda>i. stop (Suc i)) st1 pks") auto
  from Cons.prems(1) k t have "st' = st2" by simp
  moreover have "retained st1 q rec" using deleteKey_retained [OF k Cons.prems(2)] .
  ultimately show ?case using Cons.IH [OF t] by simp
qed

lemma deleteKeysCalls_retained:
  "retained st q rec \<Longrightarrow> retained (deleteKeysCalls st calls) q rec"
proof (induction calls arbitrary: st)
  case Nil
  then show ?case by simp
next
  case (Cons c cs)
  have "retained (snd (deleteKeys (fst c) st (snd c))) q rec"
    using deleteKeys_retained [of "fst c" st "snd c" _ _ q rec] Cons.prems
    by (cases "deleteKeys (fst c) st (snd c)") auto
  then show ?case using Cons.IH by simp
qed

lemma length_data_deleteKeys:
  "deleteKeys stop st pks = (r, st') \<Longrightarrow> length (data r) = length pks"
proof (induction pks arbitrary: stop st r st')
  case Nil
  then show ?case by auto
next
  case (Cons pk pks)
  obtain s recs st1 where k: "deleteKey (stop 0) st pk = (s, recs, st1)"
    by (cases "deleteKey (stop 0) st pk") auto
  obtain r2 st2 where t: "deleteKeys (\<lambda>i. stop (Suc i)) st1 pks = (r2, st2)"
    by (cases "deleteKeys (\<lambda>i. stop (Suc i)) st1 pks") auto
  from Cons.prems k t Cons.IH [OF t] show ?case by auto
qed

text \<open>
  A known, inactive key: every occurrence in a request is reported \<open>not_active\<close>, with its
  record.
\<close>

lemma deleteKeys_of_retained:
  "deleteKeys stop st pks = (r, st') \<Longrightarrow> retained st q rec \<Longrightarrow> i < length pks \<Longrightarrow> pks ! i = q
     \<Longrightarrow> statusAt r i = DeletionStatus_not_active \<and> slashingProtectionFor r q = Some rec"
proof (induction pks arbitrary: stop st r st' i)
  case Nil
  then show ?case by simp
next
  case (Cons pk pks)
  obtain s recs st1 where k: "deleteKey (stop 0) st pk = (s, recs, st1)"
    by (cases "deleteKey (stop 0) st pk") auto
  obtain r2 st2 where t: "deleteKeys (\<lambda>i. stop (Suc i)) st1 pks = (r2, st2)"
    by (cases "deleteKeys (\<lambda>i. stop (Suc i)) st1 pks") auto
  from Cons.prems(1) k t
  have r: "r = \<lparr>data = \<lparr>status = s, message = None\<rparr> # data r2,
                slashingProtection = recs @ slashingProtection r2\<rparr>"
    by simp
  have ret1: "retained st1 q rec" using deleteKey_retained [OF k Cons.prems(2)] .
  show ?case
  proof (cases i)
    case 0
    with Cons.prems have "pk = q" by simp
    with k Cons.prems(2) have "s = DeletionStatus_not_active" "recs = [(q, rec)]"
      by (auto simp: deleteKey_def retained_def split: option.splits if_splits)
    with r 0 show ?thesis by (simp add: statusAt_def slashingProtectionFor_def)
  next
    case (Suc j)
    with Cons.prems have j: "j < length pks" "pks ! j = q" by simp_all
    from Cons.IH [OF t ret1 j]
    have ih: "statusAt r2 j = DeletionStatus_not_active" "slashingProtectionFor r2 q = Some rec"
      by simp_all
    have "map_of recs q = None \<or> map_of recs q = Some rec"
      using k Cons.prems(2)
      by (auto simp: deleteKey_def retained_def split: option.splits if_splits)
    with ih r Suc show ?thesis
      by (auto simp: statusAt_def slashingProtectionFor_def map_add_def split: option.splits)
  qed
qed

text \<open>
  A key reported \<open>deleted\<close>: the record returned for it is its record in the store, which
  the store still has afterwards.
\<close>

lemma deleteKeys_deleted_retained:
  "deleteKeys stop st pks = (r, st') \<Longrightarrow> i < length pks \<Longrightarrow> statusAt r i = DeletionStatus_deleted
     \<Longrightarrow> \<exists>rec. retained st' (pks ! i) rec \<and> slashingProtectionFor r (pks ! i) = Some rec"
proof (induction pks arbitrary: stop st r st' i)
  case Nil
  then show ?case by simp
next
  case (Cons pk pks)
  obtain s recs st1 where k: "deleteKey (stop 0) st pk = (s, recs, st1)"
    by (cases "deleteKey (stop 0) st pk") auto
  obtain r2 st2 where t: "deleteKeys (\<lambda>i. stop (Suc i)) st1 pks = (r2, st2)"
    by (cases "deleteKeys (\<lambda>i. stop (Suc i)) st1 pks") auto
  from Cons.prems(1) k t
  have r: "r = \<lparr>data = \<lparr>status = s, message = None\<rparr> # data r2,
                slashingProtection = recs @ slashingProtection r2\<rparr>" and st': "st' = st2"
    by simp_all
  show ?case
  proof (cases i)
    case 0
    with Cons.prems(3) r have "s = DeletionStatus_deleted" by (simp add: statusAt_def)
    with k obtain rec where rec: "recs = [(pk, rec)]" "retained st1 pk rec"
      by (auto simp: deleteKey_def retained_def split: option.splits if_splits)
    have "retained st2 pk rec" using deleteKeys_retained [OF t rec(2)] .
    with rec r st' 0 show ?thesis by (auto simp: slashingProtectionFor_def)
  next
    case (Suc j)
    with Cons.prems r have j: "j < length pks" "statusAt r2 j = DeletionStatus_deleted"
      by (simp_all add: statusAt_def)
    from Cons.IH [OF t j] obtain rec where
      rec: "retained st2 (pks ! j) rec" "slashingProtectionFor r2 (pks ! j) = Some rec"
      by blast
    have "map_of recs (pks ! j) = None \<or> map_of recs (pks ! j) = Some rec"
    proof (cases "pks ! j = pk")
      case False
      with k show ?thesis by (auto simp: deleteKey_def split: option.splits if_splits)
    next
      case True
      show ?thesis
      proof (cases "recs = []")
        case True
        then show ?thesis by simp
      next
        case False
        with k obtain rec' where rec': "recs = [(pk, rec')]" "retained st1 pk rec'"
          by (auto simp: deleteKey_def retained_def split: option.splits if_splits)
        have "retained st2 pk rec'" using deleteKeys_retained [OF t rec'(2)] .
        with rec(1) True have "rec' = rec" by (auto simp: retained_def split: option.splits)
        with rec' True show ?thesis by simp
      qed
    qed
    with rec r st' Suc show ?thesis
      by (auto simp: slashingProtectionFor_def map_add_def split: option.splits)
  qed
qed

text \<open>
  C1. Slashing-protection records are retained, not consumed. After a deleteKeys call
  that returned \<open>deleted\<close> for a pubkey, and after any further deleteKeys calls, a call
  identical to the first returns \<open>not_found\<close> or \<open>not_active\<close> for that pubkey, never
  \<open>deleted\<close> again, and returns the same slashing-protection record for it as the first
  call did.
\<close>

theorem deleteKeys_twice:
  assumes "deleteKeys stop1 st pks = (r1, st1)"
    and "i < length pks"
    and "statusAt r1 i = DeletionStatus_deleted"
    and "deleteKeys stop2 (deleteKeysCalls st1 calls) pks = (r2, st2)"
  shows "statusAt r2 i \<in> {DeletionStatus_not_found, DeletionStatus_not_active}
         \<and> statusAt r2 i \<noteq> DeletionStatus_deleted
         \<and> slashingProtectionFor r1 (pks ! i) \<noteq> None
         \<and> slashingProtectionFor r2 (pks ! i) = slashingProtectionFor r1 (pks ! i)"
proof -
  from deleteKeys_deleted_retained [OF assms(1-3)] obtain rec where
    rec: "retained st1 (pks ! i) rec" "slashingProtectionFor r1 (pks ! i) = Some rec"
    by blast
  have "retained (deleteKeysCalls st1 calls) (pks ! i) rec"
    using deleteKeysCalls_retained [OF rec(1)] .
  from deleteKeys_of_retained [OF assms(4) this assms(2)]
  have "statusAt r2 i = DeletionStatus_not_active" "slashingProtectionFor r2 (pks ! i) = Some rec"
    by simp_all
  with rec show ?thesis by simp
qed

lemma example_deleteKeys:
  "fst (deleteKeys stopSucceeds exampleStore [pubkeyA, pubkeyB]) =
      \<lparr>data = [\<lparr>status = DeletionStatus_deleted, message = None\<rparr>,
               \<lparr>status = DeletionStatus_not_found, message = None\<rparr>],
        slashingProtection = [(pubkeyA, ''record of A'')]\<rparr>"
  by (simp add: deleteKey_def exampleStore_def stopSucceeds_def pubkeyA_def pubkeyB_def)

theorem deleteKeys_twice_witness:
  "statusAt (fst (deleteKeys stopSucceeds exampleStore [pubkeyA, pubkeyB])) 0
     = DeletionStatus_deleted
   \<and> statusAt (fst (deleteKeys stopSucceeds
         (deleteKeysCalls (snd (deleteKeys stopSucceeds exampleStore [pubkeyA, pubkeyB]))
            [(stopSucceeds, [pubkeyB, pubkeyA])])
         [pubkeyA, pubkeyB])) 0
       = DeletionStatus_not_active
   \<and> slashingProtectionFor (fst (deleteKeys stopSucceeds
         (deleteKeysCalls (snd (deleteKeys stopSucceeds exampleStore [pubkeyA, pubkeyB]))
            [(stopSucceeds, [pubkeyB, pubkeyA])])
         [pubkeyA, pubkeyB])) pubkeyA
       = Some ''record of A''"
proof -
  let ?first = "deleteKeys stopSucceeds exampleStore [pubkeyA, pubkeyB]"
  let ?st = "deleteKeysCalls (snd ?first) [(stopSucceeds, [pubkeyB, pubkeyA])]"
  let ?second = "deleteKeys stopSucceeds ?st [pubkeyA, pubkeyB]"
  note first = example_deleteKeys
  have h1: "?first = (fst ?first, snd ?first)" by simp
  have h2: "(0::nat) < length [pubkeyA, pubkeyB]" by simp
  have h3: "statusAt (fst ?first) 0 = DeletionStatus_deleted"
    unfolding statusAt_def first by simp
  have h4: "?second = (fst ?second, snd ?second)" by simp
  from deleteKeys_twice [OF h1 h2 h3 h4]
  have t: "statusAt (fst ?second) 0 \<in> {DeletionStatus_not_found, DeletionStatus_not_active}"
    and same: "slashingProtectionFor (fst ?second) ([pubkeyA, pubkeyB] ! 0)
          = slashingProtectionFor (fst ?first) ([pubkeyA, pubkeyB] ! 0)"
    by blast+
  have "statusAt (fst ?second) 0 \<noteq> DeletionStatus_not_found"
    by (simp add: deleteKey_def exampleStore_def stopSucceeds_def pubkeyA_def pubkeyB_def
        statusAt_def)
  with t have c2: "statusAt (fst ?second) 0 = DeletionStatus_not_active" by blast
  have "slashingProtectionFor (fst ?first) pubkeyA = Some ''record of A''"
    unfolding slashingProtectionFor_def first by simp
  with same have c3: "slashingProtectionFor (fst ?second) pubkeyA = Some ''record of A''"
    by (simp only: nth_Cons_0)
  from h3 c2 c3 show ?thesis by (intro conjI)
qed

text \<open>
  One item yields a record exactly when its status is \<open>deleted\<close> or \<open>not_active\<close>, the
  record is the one the store holds for the pubkey, and the store keeps every record.
\<close>

lemma deleteKey_records:
  "deleteKey b st pk = (s, recs, st') \<Longrightarrow>
     (map_of recs q \<noteq> None)
       = (q = pk \<and> s \<in> {DeletionStatus_deleted, DeletionStatus_not_active})"
  by (auto simp: deleteKey_def split: option.splits if_splits)

lemma deleteKey_record_from_store:
  "deleteKey b st pk = (s, recs, st') \<Longrightarrow> map_of recs q = Some rec \<Longrightarrow> recordOf st q = Some rec"
  by (auto simp: deleteKey_def recordOf_def split: option.splits if_splits)

lemma deleteKey_recordOf:
  "deleteKey b st pk = (s, recs, st') \<Longrightarrow> recordOf st' q = recordOf st q"
  by (auto simp: deleteKey_def recordOf_def split: option.splits if_splits)

lemma deleteKeys_presence:
  "deleteKeys stop st pks = (r, st') \<Longrightarrow>
     (slashingProtectionFor r q \<noteq> None)
       = (\<exists>i<length pks. pks ! i = q
            \<and> statusAt r i \<in> {DeletionStatus_deleted, DeletionStatus_not_active})"
proof (induction pks arbitrary: stop st r st')
  case Nil
  then show ?case by (auto simp: slashingProtectionFor_def)
next
  case (Cons pk pks)
  obtain s recs st1 where k: "deleteKey (stop 0) st pk = (s, recs, st1)"
    by (cases "deleteKey (stop 0) st pk") auto
  obtain r2 st2 where t: "deleteKeys (\<lambda>i. stop (Suc i)) st1 pks = (r2, st2)"
    by (cases "deleteKeys (\<lambda>i. stop (Suc i)) st1 pks") auto
  from Cons.prems(1) k t
  have r: "r = \<lparr>data = \<lparr>status = s, message = None\<rparr> # data r2,
                slashingProtection = recs @ slashingProtection r2\<rparr>"
    by simp
  let ?ok = "{DeletionStatus_deleted, DeletionStatus_not_active}"
  have "(slashingProtectionFor r q \<noteq> None)
      = (map_of recs q \<noteq> None \<or> slashingProtectionFor r2 q \<noteq> None)"
    by (auto simp: r slashingProtectionFor_def map_add_def split: option.splits)
  also have "\<dots> = ((q = pk \<and> s \<in> ?ok)
      \<or> (\<exists>j<length pks. pks ! j = q \<and> statusAt r2 j \<in> ?ok))"
    using deleteKey_records [OF k, of q] Cons.IH [OF t] by simp
  also have "\<dots> = (\<exists>i<length (pk # pks). (pk # pks) ! i = q \<and> statusAt r i \<in> ?ok)"
  proof
    assume "(q = pk \<and> s \<in> ?ok) \<or> (\<exists>j<length pks. pks ! j = q \<and> statusAt r2 j \<in> ?ok)"
    then show "\<exists>i<length (pk # pks). (pk # pks) ! i = q \<and> statusAt r i \<in> ?ok"
    proof
      assume "q = pk \<and> s \<in> ?ok"
      then have "0 < length (pk # pks) \<and> (pk # pks) ! 0 = q \<and> statusAt r 0 \<in> ?ok"
        by (simp add: r statusAt_def)
      then show ?thesis by blast
    next
      assume "\<exists>j<length pks. pks ! j = q \<and> statusAt r2 j \<in> ?ok"
      then obtain j where "j < length pks" "pks ! j = q" "statusAt r2 j \<in> ?ok" by blast
      then have "Suc j < length (pk # pks) \<and> (pk # pks) ! Suc j = q \<and> statusAt r (Suc j) \<in> ?ok"
        by (simp add: r statusAt_def)
      then show ?thesis by blast
    qed
  next
    assume "\<exists>i<length (pk # pks). (pk # pks) ! i = q \<and> statusAt r i \<in> ?ok"
    then obtain i where i: "i < length (pk # pks)" "(pk # pks) ! i = q" "statusAt r i \<in> ?ok"
      by blast
    show "(q = pk \<and> s \<in> ?ok) \<or> (\<exists>j<length pks. pks ! j = q \<and> statusAt r2 j \<in> ?ok)"
    proof (cases i)
      case 0
      with i show ?thesis by (simp add: r statusAt_def)
    next
      case (Suc j)
      with i have "j < length pks \<and> pks ! j = q \<and> statusAt r2 j \<in> ?ok"
        by (simp add: r statusAt_def)
      then show ?thesis by blast
    qed
  qed
  finally show ?case .
qed

lemma deleteKeys_recordOf:
  "deleteKeys stop st pks = (r, st') \<Longrightarrow> recordOf st' q = recordOf st q"
proof (induction pks arbitrary: stop st r st')
  case Nil
  then show ?case by simp
next
  case (Cons pk pks)
  obtain s recs st1 where k: "deleteKey (stop 0) st pk = (s, recs, st1)"
    by (cases "deleteKey (stop 0) st pk") auto
  obtain r2 st2 where t: "deleteKeys (\<lambda>i. stop (Suc i)) st1 pks = (r2, st2)"
    by (cases "deleteKeys (\<lambda>i. stop (Suc i)) st1 pks") auto
  from Cons.prems(1) k t have "st' = st2" by simp
  then show ?case using Cons.IH [OF t] deleteKey_recordOf [OF k, of q] by simp
qed

lemma deleteKeys_record_from_store:
  "deleteKeys stop st pks = (r, st') \<Longrightarrow> slashingProtectionFor r q = Some rec
     \<Longrightarrow> recordOf st q = Some rec"
proof (induction pks arbitrary: stop st r st')
  case Nil
  then show ?case by (auto simp: slashingProtectionFor_def)
next
  case (Cons pk pks)
  obtain s recs st1 where k: "deleteKey (stop 0) st pk = (s, recs, st1)"
    by (cases "deleteKey (stop 0) st pk") auto
  obtain r2 st2 where t: "deleteKeys (\<lambda>i. stop (Suc i)) st1 pks = (r2, st2)"
    by (cases "deleteKeys (\<lambda>i. stop (Suc i)) st1 pks") auto
  from Cons.prems(1) k t
  have r: "r = \<lparr>data = \<lparr>status = s, message = None\<rparr> # data r2,
                slashingProtection = recs @ slashingProtection r2\<rparr>"
    by simp
  from Cons.prems(2) have "map_of recs q = Some rec
      \<or> (map_of recs q = None \<and> slashingProtectionFor r2 q = Some rec)"
    by (auto simp: r slashingProtectionFor_def map_add_def split: option.splits)
  then show ?case
  proof
    assume "map_of recs q = Some rec"
    then show ?thesis using deleteKey_record_from_store [OF k] by simp
  next
    assume "map_of recs q = None \<and> slashingProtectionFor r2 q = Some rec"
    then have "recordOf st1 q = Some rec" using Cons.IH [OF t] by simp
    then show ?thesis using deleteKey_recordOf [OF k, of q] by simp
  qed
qed

text \<open>
  C5, as stated, fails when a pubkey is requested twice and step (1) fails for its first
  item and succeeds for the second: the statuses of [A, A] are error and deleted, and the
  response carries the record of A, so data is present for a pubkey that has an item
  with status \<open>error\<close>.
\<close>

theorem deleteKeys_repeated_pubkey_counterexample:
  "fst (deleteKeys stopFailsFirst exampleStore [pubkeyA, pubkeyA]) =
     \<lparr>data = [\<lparr>status = DeletionStatus_error, message = None\<rparr>,
              \<lparr>status = DeletionStatus_deleted, message = None\<rparr>],
       slashingProtection = [(pubkeyA, ''record of A'')]\<rparr>
   \<and> statusAt (fst (deleteKeys stopFailsFirst exampleStore [pubkeyA, pubkeyA])) 0
       = DeletionStatus_error
   \<and> slashingProtectionFor (fst (deleteKeys stopFailsFirst exampleStore [pubkeyA, pubkeyA]))
        ([pubkeyA, pubkeyA] ! 0) \<noteq> None"
proof -
  have e: "fst (deleteKeys stopFailsFirst exampleStore [pubkeyA, pubkeyA]) =
     \<lparr>data = [\<lparr>status = DeletionStatus_error, message = None\<rparr>,
              \<lparr>status = DeletionStatus_deleted, message = None\<rparr>],
       slashingProtection = [(pubkeyA, ''record of A'')]\<rparr>"
    by (simp add: deleteKey_def exampleStore_def stopFailsFirst_def pubkeyA_def)
  show ?thesis unfolding e by (simp add: statusAt_def slashingProtectionFor_def)
qed

text \<open>
  C5, amended. Every deleteKeys response has one status per requested item, and
  slashing-protection data is present for exactly those pubkeys that have a requested
  item whose status is \<open>deleted\<close> or \<open>not_active\<close>; it is absent for every other pubkey,
  in particular for every pubkey that was not requested, and the data present for a
  pubkey is the record the store holds for it. When no pubkey is requested twice, data
  is present for a requested pubkey exactly when its status is \<open>deleted\<close> or
  \<open>not_active\<close>, and absent when its status is \<open>not_found\<close> or \<open>error\<close>.
\<close>

theorem deleteKeys_slashing_protection_presence:
  assumes "deleteKeys stop st pks = (r, st')"
  shows "length (data r) = length pks
         \<and> (slashingProtectionFor r pk \<noteq> None)
             = (\<exists>i<length pks. pks ! i = pk
                  \<and> statusAt r i \<in> {DeletionStatus_deleted, DeletionStatus_not_active})
         \<and> (pk \<notin> set pks \<longrightarrow> slashingProtectionFor r pk = None)
         \<and> (slashingProtectionFor r pk \<noteq> None
              \<longrightarrow> slashingProtectionFor r pk = recordOf st pk)
         \<and> (distinct pks \<longrightarrow>
              (\<forall>i<length pks.
                 (slashingProtectionFor r (pks ! i) \<noteq> None)
                   = (statusAt r i \<in> {DeletionStatus_deleted, DeletionStatus_not_active})))"
proof -
  let ?ok = "{DeletionStatus_deleted, DeletionStatus_not_active}"
  note p = deleteKeys_presence [OF assms]
  have 1: "length (data r) = length pks" using length_data_deleteKeys [OF assms] .
  have 3: "pk \<notin> set pks \<longrightarrow> slashingProtectionFor r pk = None"
  proof
    assume "pk \<notin> set pks"
    then have "\<not> (\<exists>i<length pks. pks ! i = pk \<and> statusAt r i \<in> ?ok)"
      by (auto simp: in_set_conv_nth)
    with p [of pk] have "\<not> (slashingProtectionFor r pk \<noteq> None)" by blast
    then show "slashingProtectionFor r pk = None" by simp
  qed
  have 4: "slashingProtectionFor r pk \<noteq> None
      \<longrightarrow> slashingProtectionFor r pk = recordOf st pk"
    using deleteKeys_record_from_store [OF assms, of pk] by auto
  have 5: "distinct pks \<longrightarrow>
      (\<forall>i<length pks. (slashingProtectionFor r (pks ! i) \<noteq> None) = (statusAt r i \<in> ?ok))"
  proof (intro impI allI)
    fix i assume d: "distinct pks" and i: "i < length pks"
    have "(\<exists>j<length pks. pks ! j = pks ! i \<and> statusAt r j \<in> ?ok) = (statusAt r i \<in> ?ok)"
      using d i by (auto simp: nth_eq_iff_index_eq)
    then show "(slashingProtectionFor r (pks ! i) \<noteq> None) = (statusAt r i \<in> ?ok)"
      using p [of "pks ! i"] by simp
  qed
  from 1 p [of pk] 3 4 5 show ?thesis by (intro conjI)
qed

text \<open>
  The example of C5: deleting A (active) and B (unknown) gives the statuses deleted and
  not_found, and the payload covers A only.
\<close>

theorem deleteKeys_slashing_protection_presence_witness:
  "fst (deleteKeys stopSucceeds exampleStore [pubkeyA, pubkeyB]) =
     \<lparr>data = [\<lparr>status = DeletionStatus_deleted, message = None\<rparr>,
              \<lparr>status = DeletionStatus_not_found, message = None\<rparr>],
       slashingProtection = [(pubkeyA, ''record of A'')]\<rparr>
   \<and> distinct [pubkeyA, pubkeyB]
   \<and> (slashingProtectionFor (fst (deleteKeys stopSucceeds exampleStore [pubkeyA, pubkeyB]))
          pubkeyA \<noteq> None)
       = (statusAt (fst (deleteKeys stopSucceeds exampleStore [pubkeyA, pubkeyB])) 0
            \<in> {DeletionStatus_deleted, DeletionStatus_not_active})
   \<and> (slashingProtectionFor (fst (deleteKeys stopSucceeds exampleStore [pubkeyA, pubkeyB]))
          pubkeyB \<noteq> None)
       = (statusAt (fst (deleteKeys stopSucceeds exampleStore [pubkeyA, pubkeyB])) 1
            \<in> {DeletionStatus_deleted, DeletionStatus_not_active})
   \<and> slashingProtectionFor (fst (deleteKeys stopSucceeds exampleStore [pubkeyA, pubkeyB]))
          pubkeyA = recordOf exampleStore pubkeyA
   \<and> slashingProtectionFor (fst (deleteKeys stopSucceeds exampleStore [pubkeyA, pubkeyB]))
          ''0xcc'' = None"
proof -
  let ?pks = "[pubkeyA, pubkeyB]"
  let ?call = "deleteKeys stopSucceeds exampleStore ?pks"
  let ?ok = "{DeletionStatus_deleted, DeletionStatus_not_active}"
  have h: "?call = (fst ?call, snd ?call)" by simp
  have d: "distinct ?pks" by (simp add: pubkeyA_def pubkeyB_def)
  have c: "''0xcc'' \<notin> set ?pks" by (simp add: pubkeyA_def pubkeyB_def)
  have per_item: "\<forall>i<length ?pks.
      (slashingProtectionFor (fst ?call) (?pks ! i) \<noteq> None) = (statusAt (fst ?call) i \<in> ?ok)"
    using deleteKeys_slashing_protection_presence [OF h, of pubkeyA] d by blast
  have i0: "(slashingProtectionFor (fst ?call) pubkeyA \<noteq> None) = (statusAt (fst ?call) 0 \<in> ?ok)"
    using per_item [THEN spec, of 0] by simp
  have i1: "(slashingProtectionFor (fst ?call) pubkeyB \<noteq> None) = (statusAt (fst ?call) 1 \<in> ?ok)"
    using per_item [THEN spec, of 1] by simp
  have present: "slashingProtectionFor (fst ?call) pubkeyA \<noteq> None"
    unfolding slashingProtectionFor_def example_deleteKeys by simp
  have rec: "slashingProtectionFor (fst ?call) pubkeyA = recordOf exampleStore pubkeyA"
    using deleteKeys_slashing_protection_presence [OF h, of pubkeyA] present by blast
  have absent: "slashingProtectionFor (fst ?call) ''0xcc'' = None"
    using deleteKeys_slashing_protection_presence [OF h, of "''0xcc''"] c by blast
  from example_deleteKeys d i0 i1 rec absent show ?thesis by (intro conjI)
qed

subsection \<open>JavaScript numbers\<close>

text \<open>Digit counts, and the Number value of an integer below \<open>2 ^ 53\<close>, which is exact.\<close>

lemma digitCount_pos: "0 < x \<Longrightarrow> 1 < b \<Longrightarrow> 0 < digitCount b x"
  by (subst digitCount.simps) simp

lemma digitCount_bounds:
  "0 < x \<Longrightarrow> 1 < b \<Longrightarrow> b ^ (digitCount b x - 1) \<le> x \<and> x < b ^ digitCount b x"
proof (induction b x rule: digitCount.induct)
  case (1 b x)
  show ?case
  proof (cases "x div b = 0")
    case True
    then have "digitCount b (x div b) = 0" by (subst digitCount.simps) simp
    then have dc: "digitCount b x = 1" using "1.prems" by (subst digitCount.simps) simp
    from True "1.prems" have "x < b"
      by (simp add: zdiv_eq_0_iff)
    with dc "1.prems" show ?thesis by simp
  next
    case False
    with "1.prems" have pos: "0 < x div b"
      by (simp add: pos_imp_zdiv_pos_iff zdiv_eq_0_iff)
    from "1.IH" "1.prems" pos
    have ih: "b ^ (digitCount b (x div b) - 1) \<le> x div b" "x div b < b ^ digitCount b (x div b)"
      by simp_all
    have dc: "digitCount b x = Suc (digitCount b (x div b))"
      using "1.prems" by (subst digitCount.simps) simp
    have p: "0 < digitCount b (x div b)" using digitCount_pos pos "1.prems" by simp
    have "b ^ digitCount b (x div b) = b * b ^ (digitCount b (x div b) - 1)"
      using p by (cases "digitCount b (x div b)") simp_all
    also have "\<dots> \<le> b * (x div b)" using ih(1) "1.prems" by (simp add: mult_left_mono)
    also have "\<dots> \<le> x"
    proof -
      have "0 \<le> x mod b" using "1.prems" by simp
      moreover have "x = b * (x div b) + x mod b" by simp
      ultimately show ?thesis by linarith
    qed
    finally have lo: "b ^ digitCount b (x div b) \<le> x" .
    have "x div b + 1 \<le> b ^ digitCount b (x div b)" using ih(2) by simp
    then have "b * (x div b + 1) \<le> b * b ^ digitCount b (x div b)"
      using "1.prems" by (simp add: mult_left_mono)
    moreover have "x < b * (x div b + 1)"
    proof -
      have "x mod b < b" using "1.prems" by simp
      moreover have "x = b * (x div b) + x mod b" by simp
      moreover have "b * (x div b + 1) = b * (x div b) + b" by (simp add: distrib_left)
      ultimately show ?thesis by linarith
    qed
    ultimately have hi: "x < b ^ Suc (digitCount b (x div b))" by simp
    from lo hi dc show ?thesis by simp
  qed
qed

lemma binaryExponent_of_int:
  "1 \<le> n \<Longrightarrow> binaryExponent (of_int n) = int (digitCount 2 n) - 1"
  by (simp add: binaryExponent_def)

lemma roundHalfEven_of_int: "roundHalfEven (of_int m) = m"
  by (simp add: roundHalfEven_def)

lemma numberValue_of_int:
  assumes "1 \<le> n" and "n < 2 ^ 53"
  shows "numberValue (of_int n) = Finite (of_int n)"
proof -
  define d where "d = digitCount 2 n"
  have b: "2 ^ (d - 1) \<le> n" "n < 2 ^ d" and dpos: "0 < d"
    using digitCount_bounds [of n 2] digitCount_pos [of n 2] assms(1) by (simp_all add: d_def)
  have "(2::int) ^ (d - 1) < 2 ^ 53" using b(1) assms(2) by linarith
  then have "d - 1 < 53" by (rule power_less_imp_less_exp [of "2::int", rotated]) simp
  then have d53: "d \<le> 53" by simp
  define j where "j = 53 - d"
  have e: "max (binaryExponent \<bar>of_int n\<bar>) (- 1022) = int d - 1"
  proof -
    have "\<bar>(of_int n :: rat)\<bar> = of_int n" using assms(1) by simp
    then show ?thesis using binaryExponent_of_int [OF assms(1)] by (simp add: d_def)
  qed
  have "int d - 1 - 52 = - int j" using d53 by (simp add: j_def)
  then have ulp: "(2::rat) powi (int d - 1 - 52) = 1 / 2 ^ j"
    by (simp add: power_int_minus divide_inverse)
  have q: "\<bar>(of_int n :: rat)\<bar> / (1 / 2 ^ j) = of_int (n * 2 ^ j)"
    using assms(1) by simp
  have v: "of_int (roundHalfEven (\<bar>(of_int n :: rat)\<bar> / (1 / 2 ^ j))) * (1 / 2 ^ j) = (of_int n :: rat)"
    unfolding q roundHalfEven_of_int by simp
  have big: "\<not> (2::rat) powi 1024 \<le> of_int n"
  proof -
    have "n < 2 ^ 1024" using assms(2) by (rule less_trans) simp
    then have "(of_int n :: rat) < of_int (2 ^ 1024)" by (simp only: of_int_less_iff)
    then show ?thesis by simp
  qed
  have nz: "(of_int n :: rat) \<noteq> 0" "\<not> (of_int n :: rat) < 0" using assms(1) by simp_all
  show ?thesis
    unfolding numberValue_def Let_def e ulp v
    using big nz by simp
qed

lemma numberValue_minus:
  assumes "numberValue x = Finite v" and "v \<noteq> 0"
  shows "numberValue (- x) = Finite (- v)"
proof -
  have x0: "x \<noteq> 0" using assms by (auto simp: numberValue_def)
  show ?thesis
  proof (cases "x < 0")
    case True
    with assms x0 show ?thesis
      by (auto simp: numberValue_def Let_def split: if_splits)
  next
    case False
    with assms x0 show ?thesis
      by (auto simp: numberValue_def Let_def split: if_splits)
  qed
qed

text \<open>A real from \<open>2 ^ 53\<close> on does not round to a double below \<open>2 ^ 53\<close>.\<close>

lemma roundHalfEven_ge_floor: "\<lfloor>m\<rfloor> \<le> roundHalfEven m"
  by (simp add: roundHalfEven_def Let_def)

lemma numberValue_large:
  assumes "2 ^ 53 \<le> a" and "numberValue a = Finite y"
  shows "2 ^ 53 \<le> y"
proof -
  define d where "d = digitCount 2 \<lfloor>a\<rfloor>"
  have a1: "1 \<le> a" using assms(1) by (rule order_trans [rotated]) simp
  have fl: "2 ^ 53 \<le> \<lfloor>a\<rfloor>" using assms(1) by (simp add: le_floor_iff)
  then have fpos: "0 < \<lfloor>a\<rfloor>" by (rule less_le_trans [rotated]) simp
  have b: "2 ^ (d - 1) \<le> \<lfloor>a\<rfloor>" "\<lfloor>a\<rfloor> < 2 ^ d"
    using digitCount_bounds [of "\<lfloor>a\<rfloor>" 2] fpos by (simp_all add: d_def)
  have "(2::int) ^ 53 < 2 ^ d" using fl b(2) by linarith
  then have d53: "53 < d" by (rule power_less_imp_less_exp [of "2::int", rotated]) simp
  define j where "j = d - 53"
  have dj: "d - 1 = 52 + j" using d53 by (simp add: j_def)
  have be: "binaryExponent a = int d - 1" using a1 by (simp add: binaryExponent_def d_def)
  have e: "max (binaryExponent \<bar>a\<bar>) (- 1022) = int d - 1" using a1 be by simp
  have "int d - 1 - 52 = int j" using d53 by (simp add: j_def)
  then have ulp: "(2::rat) powi (int d - 1 - 52) = 2 ^ j" by simp
  have lo: "(2::rat) ^ (52 + j) \<le> a"
  proof -
    have "(of_int (2 ^ (d - 1)) :: rat) \<le> of_int \<lfloor>a\<rfloor>" using b(1) by (simp only: of_int_le_iff)
    also have "\<dots> \<le> a" by simp
    finally have "(2::rat) ^ (d - 1) \<le> a" by simp
    then show ?thesis by (simp only: dj)
  qed
  have "(2::rat) ^ 52 \<le> a / 2 ^ j"
  proof -
    have "(2::rat) ^ 52 * 2 ^ j \<le> a" using lo by (simp add: power_add)
    then show ?thesis by (simp add: pos_le_divide_eq)
  qed
  then have "2 ^ 52 \<le> \<lfloor>a / 2 ^ j\<rfloor>" by (simp add: le_floor_iff)
  then have m: "2 ^ 52 \<le> roundHalfEven (a / 2 ^ j)"
    using roundHalfEven_ge_floor [of "a / 2 ^ j"] by linarith
  define v where "v = (of_int (roundHalfEven (\<bar>a\<bar> / 2 ^ j)) :: rat) * 2 ^ j"
  have v53: "(2::rat) ^ 53 \<le> v"
  proof -
    have "(of_int (2 ^ 52) :: rat) \<le> of_int (roundHalfEven (a / 2 ^ j))"
      using m by (simp only: of_int_le_iff)
    then have "(2::rat) ^ 52 * 2 ^ j \<le> of_int (roundHalfEven (a / 2 ^ j)) * 2 ^ j"
      by (simp add: mult_right_mono)
    moreover have "(2::rat) ^ 53 \<le> 2 ^ 52 * 2 ^ j"
    proof -
      have "(2::rat) ^ 53 \<le> 2 ^ (52 + j)" using d53 by (intro power_increasing) (simp_all add: j_def)
      then show ?thesis by (simp add: power_add)
    qed
    ultimately have "(2::rat) ^ 53 \<le> of_int (roundHalfEven (a / 2 ^ j)) * 2 ^ j"
      by (rule order_trans [rotated])
    moreover have "\<bar>a\<bar> = a" using a1 by simp
    ultimately show ?thesis by (simp only: v_def)
  qed
  have "numberValue a = (if 2 powi 1024 \<le> v then Infinity else Finite v)"
    using a1 v53 unfolding numberValue_def Let_def e ulp v_def [symmetric]
    by (auto simp: not_le)
  with assms(2) have "y = v" by (auto split: if_splits)
  with v53 show ?thesis by simp
qed

text \<open>Decimal digits: \<open>digitsOf\<close> writes them and \<open>digitsValue\<close> reads them.\<close>

lemma of_char_digitChar: "0 \<le> d \<Longrightarrow> d < 10 \<Longrightarrow> (of_char (digitChar d) :: int) = 48 + d"
  by (simp add: digitChar_def)

lemma isDigit_digitChar: "0 \<le> d \<Longrightarrow> d < 10 \<Longrightarrow> isDigit (digitChar d)"
  by (simp add: isDigit_def of_char_digitChar)

lemma digitValue_digitChar: "0 \<le> d \<Longrightarrow> d < 10 \<Longrightarrow> digitValue (digitChar d) = d"
  by (simp add: digitValue_def of_char_digitChar)

lemma digitsValue_foldl:
  "foldl (\<lambda>a c. b * a + digitValue c) a cs = a * b ^ length cs + digitsValue b cs"
proof (induction cs arbitrary: a)
  case Nil
  then show ?case by (simp add: digitsValue_def)
next
  case (Cons c cs)
  have "foldl (\<lambda>a c. b * a + digitValue c) a (c # cs)
      = (b * a + digitValue c) * b ^ length cs + digitsValue b cs"
    using Cons.IH [of "b * a + digitValue c"] by simp
  moreover have "digitsValue b (c # cs) = digitValue c * b ^ length cs + digitsValue b cs"
    using Cons.IH [of "digitValue c"] by (simp add: digitsValue_def)
  ultimately show ?case by (simp add: algebra_simps)
qed

lemma digitsValue_Nil: "digitsValue b [] = 0"
  by (simp add: digitsValue_def)

lemma digitsValue_append:
  "digitsValue b (xs @ ys) = digitsValue b xs * b ^ length ys + digitsValue b ys"
proof -
  have "digitsValue b (xs @ ys) = foldl (\<lambda>a c. b * a + digitValue c) (digitsValue b xs) ys"
    by (simp add: digitsValue_def)
  then show ?thesis by (simp add: digitsValue_foldl)
qed

lemma digitsValue_single: "digitsValue b [c] = digitValue c"
  by (simp add: digitsValue_def)

lemma digitsOf_props:
  "0 \<le> s \<Longrightarrow> list_all isDigit (digitsOf s) \<and> digitsOf s \<noteq> [] \<and> digitsValue 10 (digitsOf s) = s"
proof (induction s rule: digitsOf.induct)
  case (1 n)
  show ?case
  proof (cases "n < 10")
    case True
    then have "digitsOf n = [digitChar n]" by (subst digitsOf.simps) simp
    with True "1.prems" show ?thesis
      by (simp add: isDigit_digitChar digitsValue_single digitValue_digitChar)
  next
    case False
    then have eq: "digitsOf n = digitsOf (n div 10) @ [digitChar (n mod 10)]"
      by (subst digitsOf.simps) simp
    have "0 \<le> n div 10" using "1.prems" by simp
    with "1.IH" False
    have ih: "list_all isDigit (digitsOf (n div 10))" "digitsValue 10 (digitsOf (n div 10)) = n div 10"
      by simp_all
    have m: "0 \<le> n mod 10" "n mod 10 < 10" by simp_all
    show ?thesis
      unfolding eq
      using ih m
      by (simp add: digitsValue_append digitsValue_single digitValue_digitChar isDigit_digitChar)
  qed
qed

lemma digitChar_0: "digitChar 0 = CHR ''0''"
  by code_simp

lemma digitsOf_times_10:
  assumes "1 \<le> m"
  shows "digitsOf (m * 10) = digitsOf m @ ''0''"
proof -
  have "\<not> m * 10 < 10" using assms by simp
  then have "digitsOf (m * 10) = digitsOf (m * 10 div 10) @ [digitChar (m * 10 mod 10)]"
    by (subst digitsOf.simps) simp
  then show ?thesis by (simp add: digitChar_0)
qed

lemma digitsOf_times_power:
  assumes "1 \<le> m"
  shows "digitsOf (m * 10 ^ j) = digitsOf m @ replicate j (CHR ''0'')"
proof (induction j)
  case 0
  then show ?case by simp
next
  case (Suc j)
  have "1 * 1 \<le> m * 10 ^ j" using assms by (intro mult_mono) simp_all
  then have "1 \<le> m * 10 ^ j" by simp
  then have "digitsOf (m * 10 ^ j * 10) = digitsOf (m * 10 ^ j) @ ''0''"
    by (rule digitsOf_times_10)
  moreover have "m * 10 ^ Suc j = m * 10 ^ j * 10" by simp
  ultimately have "digitsOf (m * 10 ^ Suc j) = digitsOf (m * 10 ^ j) @ ''0''" by (simp only:)
  then show ?case using Suc by (simp add: replicate_append_same)
qed

text \<open>Strings of digits are decimal literals, and are read as such by \<open>StringToNumber\<close>.\<close>

lemma isDigit_not_special:
  "isDigit c \<Longrightarrow> \<not> isWhiteSpace c \<and> c \<noteq> CHR ''.'' \<and> c \<noteq> CHR ''e'' \<and> c \<noteq> CHR ''E''
     \<and> c \<noteq> CHR ''+'' \<and> c \<noteq> CHR ''-''"
  by (auto simp: isDigit_def isWhiteSpace_def)

lemma dropWhile_none: "(\<And>c. c \<in> set s \<Longrightarrow> \<not> P c) \<Longrightarrow> dropWhile P s = s"
  by (cases s) simp_all

lemma trim_id:
  assumes "\<And>c. c \<in> set s \<Longrightarrow> \<not> isWhiteSpace c"
  shows "trim s = s"
proof -
  have "dropWhile isWhiteSpace s = s" using assms by (rule dropWhile_none)
  moreover have "dropWhile isWhiteSpace (rev s) = rev s"
    using assms by (intro dropWhile_none) simp
  ultimately show ?thesis by (simp add: trim_def)
qed

lemma span_digits:
  assumes "list_all isDigit ds" and "r = [] \<or> \<not> isDigit (hd r)"
  shows "takeWhile isDigit (ds @ r) = ds" and "dropWhile isDigit (ds @ r) = r"
proof -
  have a: "\<And>x. x \<in> set ds \<Longrightarrow> isDigit x" using assms(1) by (simp add: list_all_iff)
  have t: "takeWhile isDigit r = []" and d: "dropWhile isDigit r = r"
    using assms(2) by (cases r; simp)+
  show "takeWhile isDigit (ds @ r) = ds" using takeWhile_append2 [of ds isDigit r] a t by simp
  show "dropWhile isDigit (ds @ r) = r" using dropWhile_append2 [of ds isDigit r] a d by simp
qed

lemma literal_digits:
  assumes "list_all isDigit ip" and "ip \<noteq> []"
  shows "strUnsignedDecimalLiteral ip = Some (of_int (digitsValue 10 ip))"
proof -
  have 1: "takeWhile isDigit ip = ip" "dropWhile isDigit ip = []"
    using span_digits [OF assms(1), of "[]"] by simp_all
  show ?thesis using assms(2)
    by (simp add: strUnsignedDecimalLiteral_def Let_def 1 digitsValue_Nil)
qed

lemma literal_not_nonDecimal:
  "strUnsignedDecimalLiteral s = Some m \<Longrightarrow> nonDecimalIntegerLiteral s = None"
proof (cases s)
  case Nil
  then show ?thesis by (simp add: nonDecimalIntegerLiteral_def)
next
  case (Cons c0 t)
  assume m: "strUnsignedDecimalLiteral s = Some m"
  show ?thesis
  proof (cases t)
    case Nil
    with Cons show ?thesis by (simp add: nonDecimalIntegerLiteral_def)
  next
    case (Cons c1 ds)
    show ?thesis
    proof (rule ccontr)
      assume "nonDecimalIntegerLiteral s \<noteq> None"
      with \<open>s = c0 # t\<close> Cons have c: "c0 = CHR ''0''"
        "c1 = CHR ''x'' \<or> c1 = CHR ''X'' \<or> c1 = CHR ''o'' \<or> c1 = CHR ''O''
          \<or> c1 = CHR ''b'' \<or> c1 = CHR ''B''"
        by (auto simp: nonDecimalIntegerLiteral_def split: if_splits)
      then have "isDigit c0" "\<not> isDigit c1" "c1 \<noteq> CHR ''.''" "c1 \<noteq> CHR ''e''" "c1 \<noteq> CHR ''E''"
        by (auto simp: isDigit_def)
      with \<open>s = c0 # t\<close> Cons have "strUnsignedDecimalLiteral s = None"
        by (simp add: strUnsignedDecimalLiteral_def Let_def)
      with m show False by simp
    qed
  qed
qed

lemma literal_strDecimalLiteral:
  assumes "strUnsignedDecimalLiteral s = Some m"
  shows "strDecimalLiteral s = numberValue m"
proof (cases s)
  case Nil
  with assms show ?thesis by (simp add: strUnsignedDecimalLiteral_def Let_def)
next
  case (Cons c t)
  have "c \<noteq> CHR ''-'' \<and> c \<noteq> CHR ''+'' \<and> c \<noteq> CHR ''I''"
  proof (rule ccontr)
    assume "\<not> (c \<noteq> CHR ''-'' \<and> c \<noteq> CHR ''+'' \<and> c \<noteq> CHR ''I'')"
    then have "\<not> isDigit c" "c \<noteq> CHR ''.''" "c \<noteq> CHR ''e''" "c \<noteq> CHR ''E''"
      by (auto simp: isDigit_def)
    with Cons have "strUnsignedDecimalLiteral s = None"
      by (simp add: strUnsignedDecimalLiteral_def Let_def)
    with assms show False by simp
  qed
  with Cons assms show ?thesis by (auto simp: strDecimalLiteral_def)
qed

lemma literal_StringToNumber:
  assumes "strUnsignedDecimalLiteral s = Some m" and "\<And>c. c \<in> set s \<Longrightarrow> \<not> isWhiteSpace c"
  shows "StringToNumber s = numberValue m"
proof -
  have "s \<noteq> []" using assms(1) by (auto simp: strUnsignedDecimalLiteral_def Let_def)
  moreover have "trim s = s" using assms(2) by (rule trim_id)
  ultimately show ?thesis
    using literal_not_nonDecimal [OF assms(1)] literal_strDecimalLiteral [OF assms(1)]
    by (simp add: StringToNumber_def)
qed

text \<open>
  \<open>toString\<close> on an integer from 1 to \<open>2 ^ 53 - 1\<close>: the digits found denote the integer
  itself, and are written without fraction or exponent.
\<close>

lemma closer_cases: "closer x k c1 c2 = c1 \<or> closer x k c1 c2 = c2"
  by (simp add: closer_def)

lemma foldl_closer_mem: "foldl (closer x k) c cs \<in> set (c # cs)"
proof (induction cs arbitrary: c)
  case Nil
  then show ?case by simp
next
  case (Cons d cs)
  have "foldl (closer x k) (closer x k c d) cs \<in> set (closer x k c d # cs)" by (rule Cons.IH)
  then show ?case using closer_cases [of x k c d] by auto
qed

lemma shortestDigits_first:
  assumes "digitCandidates x k0 \<noteq> []" and "1 \<le> k0" and "k0 < 17"
  shows "\<exists>n k s. shortestDigits x = (n, k, s) \<and> 0 < k \<and> k \<le> k0
           \<and> (n, s) \<in> set (digitCandidates x k)"
proof -
  let ?P = "\<lambda>k. digitCandidates x k \<noteq> []"
  have "k0 \<in> set [1 ..< 17]" using assms(2,3) by simp
  with assms(1) have "List.find ?P [1 ..< 17] \<noteq> None"
    by (auto simp only: find_None_iff)
  then obtain k where f: "List.find ?P [1 ..< 17] = Some k" by auto
  then obtain i where i: "i < length [1 ..< 17]" "?P ([1 ..< 17] ! i)" "k = [1 ..< 17] ! i"
    and least: "\<forall>j<i. \<not> ?P ([1 ..< 17] ! j)"
    unfolding find_Some_iff by blast
  have ki: "k = 1 + i" and i16: "i < 16" using i(1,3) by simp_all
  have kle: "k \<le> k0"
  proof (rule ccontr)
    assume "\<not> k \<le> k0"
    then have "k0 - 1 < i" using ki assms(2) by simp
    with least have "\<not> ?P ([1 ..< 17] ! (k0 - 1))" by blast
    moreover have "[1 ..< 17] ! (k0 - 1) = k0" using assms(2,3) by simp
    ultimately show False using assms(1) by simp
  qed
  from i(2,3) obtain c cs where cs: "digitCandidates x k = c # cs"
    by (cases "digitCandidates x k") auto
  obtain n s where ns: "foldl (closer x k) c cs = (n, s)" by (cases "foldl (closer x k) c cs")
  have mem: "(n, s) \<in> set (digitCandidates x k)"
    using foldl_closer_mem [of x k c cs] ns cs by simp
  have "shortestDigits x = (n, k, s)"
    by (simp only: shortestDigits_def f option.case cs list.case ns prod.case)
  with mem kle ki show ?thesis by simp
qed

lemma decimalExponent_of_int: "1 \<le> n \<Longrightarrow> decimalExponent (of_int n) = int (digitCount 10 n)"
  by (simp add: decimalExponent_def)

lemma integer_candidate:
  assumes "1 \<le> n" and "n < 2 ^ 53"
  shows "digitCandidates (of_int n) (digitCount 10 n) \<noteq> []
         \<and> 1 \<le> digitCount 10 n \<and> digitCount 10 n < 17"
proof -
  define k where "k = digitCount 10 n"
  have b: "10 ^ (k - 1) \<le> n" "n < 10 ^ k" and kpos: "0 < k"
    using digitCount_bounds [of n 10] digitCount_pos [of n 10] assms(1) by (simp_all add: k_def)
  have "(10::int) ^ (k - 1) < 10 ^ 16" using b(1) assms(2) by simp
  then have "k - 1 < 16" by (rule power_less_imp_less_exp [of "10::int", rotated]) simp
  then have k17: "k < 17" by simp
  have r: "representsWith (of_int n) k (int k, n)"
    using b numberValue_of_int [OF assms] by (simp add: representsWith_def)
  have "(int k, n) \<in> set (digitCandidates (of_int n) k)"
    using r decimalExponent_of_int [OF assms(1)]
    by (simp add: digitCandidates_def k_def [symmetric] Let_def)
  then have "digitCandidates (of_int n) k \<noteq> []" by auto
  with kpos k17 show ?thesis by (simp add: k_def)
qed

lemma toString_integer:
  assumes "1 \<le> n" and "n < 2 ^ 53"
  shows "toString (Finite (of_int n)) = digitsOf n"
proof -
  define k0 where "k0 = digitCount 10 n"
  from integer_candidate [OF assms] shortestDigits_first [of "of_int n" k0]
  obtain n' k s where sd: "shortestDigits (of_int n) = (n', k, s)" and k: "0 < k" "k \<le> k0"
    and mem: "(n', s) \<in> set (digitCandidates (of_int n) k)" and k17: "k0 < 17"
    unfolding k0_def by blast
  have n0: "decimalExponent (of_int n) = int k0"
    using decimalExponent_of_int [OF assms(1)] by (simp add: k0_def)
  from mem have r: "representsWith (of_int n) k (n', s)"
    and n': "n' = int k0 \<or> n' = int k0 + 1"
    unfolding digitCandidates_def n0 set_filter by (auto simp: Let_def)
  from r have b: "10 ^ (k - 1) \<le> s" "s < 10 ^ k"
    and v: "numberValue (of_int s * 10 powi (n' - int k)) = Finite (of_int n)"
    by (simp_all add: representsWith_def)
  have s1: "1 \<le> s" using b(1) by (rule order_trans [rotated]) simp
  define j where "j = nat (n' - int k)"
  have j: "n' - int k = int j" using n' k(2) by (auto simp: j_def)
  have vj: "(of_int s :: rat) * 10 powi (n' - int k) = of_int (s * 10 ^ j)"
    by (simp add: j)
  have pos: "1 \<le> s * 10 ^ j"
  proof -
    have "1 * 1 \<le> s * 10 ^ j" using s1 by (intro mult_mono) simp_all
    then show ?thesis by simp
  qed
  have eq: "s * 10 ^ j = n"
  proof (cases "s * 10 ^ j < 2 ^ 53")
    case True
    from v have "numberValue (of_int (s * 10 ^ j)) = Finite (of_int n)" by (simp only: vj)
    with numberValue_of_int [OF pos True]
    have "Finite (of_int (s * 10 ^ j)) = Finite (of_int n)" by (simp only:)
    then have "(of_int (s * 10 ^ j) :: rat) = of_int n" by (simp only: number.inject)
    then show ?thesis by (simp only: of_int_eq_iff)
  next
    case False
    then have "(of_int (2 ^ 53) :: rat) \<le> of_int (s * 10 ^ j)" by (simp only: of_int_le_iff)
    then have "(2::rat) ^ 53 \<le> of_int (s * 10 ^ j)" by simp
    moreover from v have "numberValue (of_int (s * 10 ^ j)) = Finite (of_int n)"
      by (simp only: vj)
    ultimately have "(2::rat) ^ 53 \<le> of_int n" by (rule numberValue_large)
    then have "(of_int (2 ^ 53) :: rat) \<le> of_int n" by simp
    then have "2 ^ 53 \<le> n" by (simp only: of_int_le_iff)
    with assms(2) show ?thesis by simp
  qed
  have fmt: "formatDigits (n', k, s) = digitsOf s @ replicate j (CHR ''0'')"
    using n' k k17 by (auto simp: formatDigits_def Let_def j_def)
  have "toString (Finite (of_int n)) = formatDigits (n', k, s)"
    using assms(1) by (simp add: sd)
  also have "\<dots> = digitsOf (s * 10 ^ j)" using digitsOf_times_power [OF s1, of j] fmt by simp
  finally show ?thesis by (simp add: eq)
qed

lemma StringToNumber_digits:
  assumes "list_all isDigit ds" and "ds \<noteq> []"
  shows "StringToNumber ds = numberValue (of_int (digitsValue 10 ds))"
  using literal_digits [OF assms] assms(1)
  by (intro literal_StringToNumber) (auto simp: list_all_iff isDigit_not_special)

lemma StringToNumber_digitsOf:
  assumes "1 \<le> n" and "n < 2 ^ 53"
  shows "StringToNumber (digitsOf n) = Finite (of_int n)"
proof -
  have "0 \<le> n" using assms(1) by simp
  from digitsOf_props [OF this]
  have "StringToNumber (digitsOf n) = numberValue (of_int (digitsValue 10 (digitsOf n)))"
    by (intro StringToNumber_digits) simp_all
  also have "digitsValue 10 (digitsOf n) = n" using digitsOf_props [OF \<open>0 \<le> n\<close>] by simp
  finally show ?thesis using numberValue_of_int [OF assms] by simp
qed

lemma digitsOf_30000000: "digitsOf 30000000 = ''30000000''"
  by code_simp

lemma toString_30000000: "toString (Finite 30000000) = ''30000000''"
  using toString_integer [of 30000000] by (simp add: digitsOf_30000000 del: toString.simps)

lemma StringToNumber_30000000: "StringToNumber ''30000000'' = Finite 30000000"
  using StringToNumber_digitsOf [of 30000000] by (simp add: digitsOf_30000000)

lemma StringToNumber_0: "StringToNumber ''0'' = Finite 0"
proof -
  have "list_all isDigit ''0''" by (simp add: isDigit_def)
  then have "StringToNumber ''0'' = numberValue (of_int (digitsValue 10 ''0''))"
    by (rule StringToNumber_digits) simp
  also have "digitsValue 10 ''0'' = 0"
    by (simp add: digitsValue_def digitValue_def)
  finally show ?thesis by (simp add: numberValue_def)
qed

lemma trim_abc: "trim ''abc'' = ''abc''"
  by (rule trim_id) (auto simp: isWhiteSpace_def)

lemma StringToNumber_abc: "StringToNumber ''abc'' = NaN"
  by (simp add: StringToNumber_def trim_abc nonDecimalIntegerLiteral_def strDecimalLiteral_def
      strUnsignedDecimalLiteral_def isDigit_def)

lemma trim_minus_5: "trim ''-5'' = ''-5''"
  by (rule trim_id) (auto simp: isWhiteSpace_def)

lemma StringToNumber_minus_5: "StringToNumber ''-5'' = Finite (- 5)"
proof -
  have "list_all isDigit ''5''" by (simp add: isDigit_def)
  then have "strUnsignedDecimalLiteral ''5'' = Some (of_int (digitsValue 10 ''5''))"
    by (rule literal_digits) simp
  also have "digitsValue 10 ''5'' = 5" by (simp add: digitsValue_def digitValue_def)
  finally have u: "strUnsignedDecimalLiteral ''5'' = Some 5" by simp
  have v: "numberValue 5 = Finite 5" using numberValue_of_int [of 5] by simp
  then have m: "numberValue (- 5) = Finite (- 5)" using numberValue_minus [of 5 5] by simp
  show ?thesis
    by (simp add: StringToNumber_def trim_minus_5 nonDecimalIntegerLiteral_def
        strDecimalLiteral_def u v m)
qed

lemma trim_space_30000000: "trim '' 30000000'' = ''30000000''"
  by (simp add: trim_def isWhiteSpace_def)

lemma StringToNumber_space_30000000: "StringToNumber '' 30000000'' = Finite 30000000"
proof -
  have "StringToNumber '' 30000000'' = StringToNumber ''30000000''"
    by (simp add: StringToNumber_def trim_space_30000000 trim_def isWhiteSpace_def)
  then show ?thesis by (simp add: StringToNumber_30000000)
qed

text \<open>
  Reading back what \<open>formatDigits\<close> writes: the digits, the decimal point and the
  exponent of each of its four shapes are read as the decimal \<open>s * 10 ^ (n - k)\<close>.
\<close>

lemma digitsValue_zeros: "digitsValue 10 (replicate m (CHR ''0'')) = 0"
proof (induction m)
  case 0
  then show ?case by (simp add: digitsValue_Nil)
next
  case (Suc m)
  have "replicate (Suc m) (CHR ''0'') = replicate m (CHR ''0'') @ [CHR ''0'']"
    by (simp add: replicate_append_same)
  then show ?case using Suc
    by (simp only: digitsValue_append digitsValue_single) (simp add: digitValue_def)
qed

lemma length_digitsOf:
  "0 < k \<Longrightarrow> 10 ^ (k - 1) \<le> s \<Longrightarrow> s < 10 ^ k \<Longrightarrow> length (digitsOf s) = k"
proof (induction s arbitrary: k rule: digitsOf.induct)
  case (1 n)
  show ?case
  proof (cases "n < 10")
    case True
    then have l: "length (digitsOf n) = 1" by (subst digitsOf.simps) simp
    have "k = 1"
    proof (rule ccontr)
      assume "k \<noteq> 1"
      with "1.prems"(1) have "1 \<le> k - 1" by simp
      then have "(10::int) ^ 1 \<le> 10 ^ (k - 1)" by (rule power_increasing) simp
      with "1.prems"(2) True show False by simp
    qed
    with l show ?thesis by simp
  next
    case False
    then have eq: "digitsOf n = digitsOf (n div 10) @ [digitChar (n mod 10)]"
      by (subst digitsOf.simps) simp
    have k2: "1 < k"
    proof (rule ccontr)
      assume "\<not> 1 < k"
      with "1.prems"(1) have "k = 1" by simp
      with "1.prems"(3) False show False by simp
    qed
    then obtain k' where k': "k = Suc k'" "0 < k'" by (cases k) auto
    have lo: "10 ^ (k' - 1) \<le> n div 10"
    proof -
      obtain k'' where k'': "k' = Suc k''" using k'(2) by (cases k') auto
      have "10 * 10 ^ k'' \<le> n" using "1.prems"(2) k' k'' by simp
      then have "10 ^ k'' \<le> n div 10" by linarith
      then show ?thesis by (simp add: k'')
    qed
    have hi: "n div 10 < 10 ^ k'"
    proof -
      have "n < 10 * 10 ^ k'" using "1.prems"(3) k' by simp
      then show ?thesis by linarith
    qed
    from "1.IH" [OF False k'(2) lo hi] show ?thesis by (simp add: eq k')
  qed
qed

lemma not_isDigit_special:
  "\<not> isDigit (CHR ''.'')" "\<not> isDigit (CHR ''e'')" "\<not> isDigit (CHR ''+'')" "\<not> isDigit (CHR ''-'')"
  by (simp_all add: isDigit_def)

lemma not_isWhiteSpace_special:
  "\<not> isWhiteSpace (CHR ''.'')" "\<not> isWhiteSpace (CHR ''e'')" "\<not> isWhiteSpace (CHR ''+'')"
  "\<not> isWhiteSpace (CHR ''-'')" "\<not> isWhiteSpace (CHR ''0'')"
  by (simp_all add: isWhiteSpace_def)

lemma signedInteger_plus:
  "0 \<le> m \<Longrightarrow> signedInteger (CHR ''+'' # digitsOf m) = Some m"
  using digitsOf_props [of m] by (simp add: signedInteger_def)

lemma signedInteger_minus:
  "0 \<le> m \<Longrightarrow> signedInteger (CHR ''-'' # digitsOf m) = Some (- m)"
  using digitsOf_props [of m] by (simp add: signedInteger_def)

lemma literal_fraction:
  assumes "list_all isDigit ip" and "list_all isDigit fp" and "ip \<noteq> [] \<or> fp \<noteq> []"
  shows "strUnsignedDecimalLiteral (ip @ CHR ''.'' # fp)
     = Some (of_int (digitsValue 10 ip) + of_int (digitsValue 10 fp) / 10 ^ length fp)"
proof -
  have 1: "takeWhile isDigit (ip @ CHR ''.'' # fp) = ip"
    "dropWhile isDigit (ip @ CHR ''.'' # fp) = CHR ''.'' # fp"
    using span_digits [OF assms(1), of "CHR ''.'' # fp"] by (simp_all add: not_isDigit_special)
  have 2: "takeWhile isDigit fp = fp" "dropWhile isDigit fp = []"
    using span_digits [OF assms(2), of "[]"] by simp_all
  show ?thesis using assms(3)
    by (auto simp: strUnsignedDecimalLiteral_def Let_def 1 2)
qed

lemma literal_exponent:
  assumes "list_all isDigit ip" and "ip \<noteq> []" and "signedInteger ex = Some e"
  shows "strUnsignedDecimalLiteral (ip @ CHR ''e'' # ex)
     = Some (of_int (digitsValue 10 ip) * 10 powi e)"
proof -
  have 1: "takeWhile isDigit (ip @ CHR ''e'' # ex) = ip"
    "dropWhile isDigit (ip @ CHR ''e'' # ex) = CHR ''e'' # ex"
    using span_digits [OF assms(1), of "CHR ''e'' # ex"] by (simp_all add: not_isDigit_special)
  show ?thesis using assms(2,3)
    by (simp add: strUnsignedDecimalLiteral_def Let_def 1 digitsValue_Nil)
qed

lemma literal_fraction_exponent:
  assumes "list_all isDigit ip" and "list_all isDigit fp" and "ip \<noteq> [] \<or> fp \<noteq> []"
    and "signedInteger ex = Some e"
  shows "strUnsignedDecimalLiteral (ip @ CHR ''.'' # fp @ CHR ''e'' # ex)
     = Some ((of_int (digitsValue 10 ip) + of_int (digitsValue 10 fp) / 10 ^ length fp) * 10 powi e)"
proof -
  have 1: "takeWhile isDigit (ip @ CHR ''.'' # fp @ CHR ''e'' # ex) = ip"
    "dropWhile isDigit (ip @ CHR ''.'' # fp @ CHR ''e'' # ex) = CHR ''.'' # fp @ CHR ''e'' # ex"
    using span_digits [OF assms(1), of "CHR ''.'' # fp @ CHR ''e'' # ex"]
    by (simp_all add: not_isDigit_special)
  have 2: "takeWhile isDigit (fp @ CHR ''e'' # ex) = fp"
    "dropWhile isDigit (fp @ CHR ''e'' # ex) = CHR ''e'' # ex"
    using span_digits [OF assms(2), of "CHR ''e'' # ex"] by (simp_all add: not_isDigit_special)
  show ?thesis using assms(3,4)
    by (auto simp: strUnsignedDecimalLiteral_def Let_def 1 2)
qed

lemma powi_diff_nat: "(10::rat) powi (a - int j) = 10 powi a / 10 ^ j"
  by (simp add: power_int_diff)

lemma powi_neg_nat: "(10::rat) powi (- int j) = 1 / 10 ^ j"
  by (simp add: power_int_minus divide_inverse)

lemma split_value:
  assumes "length ds = k" and "a \<le> k"
  shows "(of_int (digitsValue 10 (take a ds)) :: rat)
           + of_int (digitsValue 10 (drop a ds)) / 10 ^ (k - a)
         = of_int (digitsValue 10 ds) / 10 ^ (k - a)"
proof -
  have "digitsValue 10 ds = digitsValue 10 (take a ds @ drop a ds)" by simp
  also have "\<dots> = digitsValue 10 (take a ds) * 10 ^ (k - a) + digitsValue 10 (drop a ds)"
    using assms by (simp only: digitsValue_append length_drop)
  finally have "(of_int (digitsValue 10 ds) :: rat)
      = of_int (digitsValue 10 (take a ds)) * 10 ^ (k - a) + of_int (digitsValue 10 (drop a ds))"
    by simp
  then show ?thesis by (simp add: field_simps)
qed

lemma set_digits_notWS: "list_all isDigit ds \<Longrightarrow> c \<in> set ds \<Longrightarrow> \<not> isWhiteSpace c"
  by (auto simp: list_all_iff isDigit_not_special)

lemma parse_formatDigits:
  assumes k: "0 < k" and lo: "10 ^ (k - 1) \<le> s" and hi: "s < 10 ^ k"
  shows "strUnsignedDecimalLiteral (formatDigits (n, k, s)) = Some (of_int s * 10 powi (n - int k))
         \<and> (\<forall>c \<in> set (formatDigits (n, k, s)). \<not> isWhiteSpace c)"
proof -
  define ds where "ds = digitsOf s"
  have s0: "0 \<le> s" using lo by (rule order_trans [rotated]) simp
  have dig: "list_all isDigit ds" and ne: "ds \<noteq> []" and val: "digitsValue 10 ds = s"
    using digitsOf_props [OF s0] by (simp_all add: ds_def)
  have len: "length ds = k" using length_digitsOf [OF k lo hi] by (simp add: ds_def)
  have ws: "\<And>c. c \<in> set ds \<Longrightarrow> \<not> isWhiteSpace c" using set_digits_notWS [OF dig] .
  have digtake: "list_all isDigit (take a ds)" "list_all isDigit (drop a ds)" for a
    using dig by (auto simp: list_all_iff dest: in_set_takeD in_set_dropD)
  have wstake: "c \<in> set (take a ds) \<Longrightarrow> \<not> isWhiteSpace c"
    "c \<in> set (drop a ds) \<Longrightarrow> \<not> isWhiteSpace c" for a c
    using ws by (auto dest: in_set_takeD in_set_dropD)
  consider (int) "int k \<le> n" "n \<le> 21"
    | (frac) "\<not> (int k \<le> n \<and> n \<le> 21)" "0 < n" "n \<le> 21"
    | (small) "\<not> (int k \<le> n \<and> n \<le> 21)" "\<not> (0 < n \<and> n \<le> 21)" "- 6 < n" "n \<le> 0"
    | (exp) "\<not> (int k \<le> n \<and> n \<le> 21)" "\<not> (0 < n \<and> n \<le> 21)" "\<not> (- 6 < n \<and> n \<le> 0)"
    by blast
  then show ?thesis
  proof cases
    case int
    define j where "j = nat (n - int k)"
    have f: "formatDigits (n, k, s) = ds @ replicate j (CHR ''0'')"
      using int by (simp add: formatDigits_def Let_def ds_def j_def)
    have z: "list_all isDigit (replicate j (CHR ''0''))"
      by (simp add: list_all_iff isDigit_def)
    have "strUnsignedDecimalLiteral (ds @ replicate j (CHR ''0''))
        = Some (of_int (digitsValue 10 (ds @ replicate j (CHR ''0''))))"
      using dig z ne by (intro literal_digits) simp_all
    also have "digitsValue 10 (ds @ replicate j (CHR ''0'')) = s * 10 ^ j"
      by (simp add: digitsValue_append digitsValue_zeros val)
    also have "(of_int (s * 10 ^ j) :: rat) = of_int s * 10 powi (n - int k)"
    proof -
      have "n - int k = int j" using int by (simp add: j_def)
      then show ?thesis by simp
    qed
    finally have p: "strUnsignedDecimalLiteral (formatDigits (n, k, s))
        = Some (of_int s * 10 powi (n - int k))"
      by (simp only: f)
    have "\<forall>c \<in> set (formatDigits (n, k, s)). \<not> isWhiteSpace c"
      unfolding f using ws by (auto simp: not_isWhiteSpace_special)
    with p show ?thesis by simp
  next
    case frac
    define a where "a = nat n"
    have a: "0 < a" "a < k" "n = int a" using frac by (simp_all add: a_def)
    have f: "formatDigits (n, k, s) = take a ds @ CHR ''.'' # drop a ds"
      using frac by (simp add: formatDigits_def Let_def ds_def a_def)
    have tne: "take a ds \<noteq> []" using a ne by simp
    have "strUnsignedDecimalLiteral (take a ds @ CHR ''.'' # drop a ds)
        = Some (of_int (digitsValue 10 (take a ds))
                + of_int (digitsValue 10 (drop a ds)) / 10 ^ length (drop a ds))"
      using digtake tne by (intro literal_fraction) simp_all
    also have "length (drop a ds) = k - a" using len by simp
    also have "(of_int (digitsValue 10 (take a ds)) :: rat)
                + of_int (digitsValue 10 (drop a ds)) / 10 ^ (k - a)
        = of_int s / 10 ^ (k - a)"
      using split_value [OF len, of a] a by (simp add: val)
    also have "(of_int s :: rat) / 10 ^ (k - a) = of_int s * 10 powi (n - int k)"
    proof -
      have "n - int k = - int (k - a)" using a by simp
      then show ?thesis by (simp only: powi_neg_nat) simp
    qed
    finally have p: "strUnsignedDecimalLiteral (formatDigits (n, k, s))
        = Some (of_int s * 10 powi (n - int k))"
      by (simp only: f)
    have "\<forall>c \<in> set (formatDigits (n, k, s)). \<not> isWhiteSpace c"
      unfolding f using wstake by (auto simp: not_isWhiteSpace_special)
    with p show ?thesis by simp
  next
    case small
    define j where "j = nat (- n)"
    have f: "formatDigits (n, k, s) = ''0'' @ CHR ''.'' # (replicate j (CHR ''0'') @ ds)"
      using small by (simp add: formatDigits_def Let_def ds_def j_def)
    have z: "list_all isDigit (replicate j (CHR ''0'') @ ds)" "list_all isDigit ''0''"
      using dig by (auto simp: list_all_iff isDigit_def)
    have "strUnsignedDecimalLiteral (''0'' @ CHR ''.'' # (replicate j (CHR ''0'') @ ds))
        = Some (of_int (digitsValue 10 ''0'')
                + of_int (digitsValue 10 (replicate j (CHR ''0'') @ ds))
                    / 10 ^ length (replicate j (CHR ''0'') @ ds))"
      using z by (intro literal_fraction) simp_all
    also have "digitsValue 10 ''0'' = 0" by (simp add: digitsValue_def digitValue_def)
    also have "digitsValue 10 (replicate j (CHR ''0'') @ ds) = s"
      by (simp add: digitsValue_append digitsValue_zeros val)
    also have "length (replicate j (CHR ''0'') @ ds) = j + k" using len by simp
    also have "(of_int 0 :: rat) + of_int s / 10 ^ (j + k) = of_int s * 10 powi (n - int k)"
    proof -
      have "n - int k = - int (j + k)" using small by (simp add: j_def)
      then show ?thesis by (simp only: powi_neg_nat) simp
    qed
    finally have p: "strUnsignedDecimalLiteral (formatDigits (n, k, s))
        = Some (of_int s * 10 powi (n - int k))"
      by (simp only: f)
    have "\<forall>c \<in> set (formatDigits (n, k, s)). \<not> isWhiteSpace c"
      unfolding f using ws by (auto simp: not_isWhiteSpace_special)
    with p show ?thesis by simp
  next
    case exp
    define sgn where "sgn = (if n - 1 < 0 then CHR ''-'' else CHR ''+'')"
    define ex where "ex = sgn # digitsOf \<bar>n - 1\<bar>"
    have sx: "signedInteger ex = Some (n - 1)"
    proof (cases "n - 1 < 0")
      case True
      then show ?thesis
        using signedInteger_minus [of "\<bar>n - 1\<bar>"] by (simp add: ex_def sgn_def)
    next
      case False
      then show ?thesis
        using signedInteger_plus [of "\<bar>n - 1\<bar>"] by (simp add: ex_def sgn_def)
    qed
    have exws: "\<And>c. c \<in> set ex \<Longrightarrow> \<not> isWhiteSpace c"
      using set_digits_notWS [of "digitsOf \<bar>n - 1\<bar>"] digitsOf_props [of "\<bar>n - 1\<bar>"]
      by (auto simp: ex_def sgn_def not_isWhiteSpace_special split: if_splits)
    show ?thesis
    proof (cases "k = 1")
      case True
      have f: "formatDigits (n, k, s) = ds @ CHR ''e'' # ex"
        using exp True by (auto simp: formatDigits_def Let_def ds_def ex_def sgn_def)
      have "strUnsignedDecimalLiteral (ds @ CHR ''e'' # ex)
          = Some (of_int (digitsValue 10 ds) * 10 powi (n - 1))"
        using dig ne sx by (intro literal_exponent)
      then have p: "strUnsignedDecimalLiteral (formatDigits (n, k, s))
          = Some (of_int s * 10 powi (n - int k))"
        unfolding f using True by (simp add: val)
      have "\<forall>c \<in> set (formatDigits (n, k, s)). \<not> isWhiteSpace c"
        unfolding f using ws exws by (auto simp: not_isWhiteSpace_special)
      with p show ?thesis by simp
    next
      case False
      with k have k1: "1 < k" by simp
      have f: "formatDigits (n, k, s) = take 1 ds @ CHR ''.'' # drop 1 ds @ CHR ''e'' # ex"
        using exp False by (auto simp: formatDigits_def Let_def ds_def ex_def sgn_def)
      have tne: "take 1 ds \<noteq> []" using ne by simp
      have "strUnsignedDecimalLiteral (take 1 ds @ CHR ''.'' # drop 1 ds @ CHR ''e'' # ex)
          = Some ((of_int (digitsValue 10 (take 1 ds))
                   + of_int (digitsValue 10 (drop 1 ds)) / 10 ^ length (drop 1 ds))
                  * 10 powi (n - 1))"
        using digtake tne sx by (intro literal_fraction_exponent) simp_all
      also have "length (drop 1 ds) = k - 1" using len by simp
      also have "(of_int (digitsValue 10 (take 1 ds)) :: rat)
                  + of_int (digitsValue 10 (drop 1 ds)) / 10 ^ (k - 1)
          = of_int s / 10 ^ (k - 1)"
        using split_value [OF len, of 1] k by (simp add: val)
      also have "(of_int s :: rat) / 10 ^ (k - 1) * 10 powi (n - 1) = of_int s * 10 powi (n - int k)"
      proof -
        have "n - int k = (n - 1) - int (k - 1)" using k by simp
        then show ?thesis by (simp only: powi_diff_nat) simp
      qed
      finally have p: "strUnsignedDecimalLiteral (formatDigits (n, k, s))
          = Some (of_int s * 10 powi (n - int k))"
        by (simp only: f)
      have "\<forall>c \<in> set (formatDigits (n, k, s)). \<not> isWhiteSpace c"
        unfolding f using wstake exws by (auto simp: not_isWhiteSpace_special)
      with p show ?thesis by simp
    qed
  qed
qed

lemma StringToNumber_formatDigits:
  assumes "0 < k" and "10 ^ (k - 1) \<le> s" and "s < 10 ^ k"
  shows "StringToNumber (formatDigits (n, k, s)) = numberValue (of_int s * 10 powi (n - int k))"
  using parse_formatDigits [OF assms, of n] by (intro literal_StringToNumber) simp_all

lemma shortestDigits_represents:
  assumes "digitCandidates x k0 \<noteq> []" and "1 \<le> k0" and "k0 < 17"
  shows "\<exists>n k s. shortestDigits x = (n, k, s) \<and> 0 < k \<and> representsWith x k (n, s)"
proof -
  have "k0 \<in> set [1 ..< 17]" using assms(2,3) by simp
  with assms(1) have "List.find (\<lambda>k. digitCandidates x k \<noteq> []) [1 ..< 17] \<noteq> None"
    by (auto simp only: find_None_iff)
  then obtain k where f: "List.find (\<lambda>k. digitCandidates x k \<noteq> []) [1 ..< 17] = Some k"
    by auto
  then have kin: "k \<in> set [1 ..< 17]" and kne: "digitCandidates x k \<noteq> []"
    by (auto simp: find_Some_iff)
  then obtain c cs where cs: "digitCandidates x k = c # cs" by (cases "digitCandidates x k") auto
  obtain n s where ns: "foldl (closer x k) c cs = (n, s)" by (cases "foldl (closer x k) c cs")
  have "(n, s) \<in> set (digitCandidates x k)" using foldl_closer_mem [of x k c cs] ns cs by simp
  then have r: "representsWith x k (n, s)" unfolding digitCandidates_def by (simp only: set_filter) simp
  have "shortestDigits x = (n, k, s)"
    by (simp only: shortestDigits_def f option.case cs list.case ns prod.case)
  with r kin show ?thesis by simp
qed

text \<open>The exponents of a positive rational enclose it between two powers.\<close>

lemma powi_less_imp_less:
  fixes a :: rat
  assumes "1 < a" and "a powi m < a powi n"
  shows "m < n"
proof (rule ccontr)
  assume "\<not> m < n"
  then have "n \<le> m" by simp
  then have "a powi n \<le> a powi m" using assms(1) by (intro power_int_increasing) simp_all
  with assms(2) show False by simp
qed

lemma floor_digit_bounds:
  fixes q :: rat
  assumes "1 \<le> q" and "1 < b"
  shows "0 < digitCount b \<lfloor>q\<rfloor>"
    and "of_int b ^ (digitCount b \<lfloor>q\<rfloor> - 1) \<le> q"
    and "q < of_int b ^ digitCount b \<lfloor>q\<rfloor>"
proof -
  have f: "0 < \<lfloor>q\<rfloor>" using assms(1) by simp
  note bnd = digitCount_bounds [OF f assms(2)]
  show "0 < digitCount b \<lfloor>q\<rfloor>" using digitCount_pos [OF f assms(2)] .
  have "(of_int (b ^ (digitCount b \<lfloor>q\<rfloor> - 1)) :: rat) \<le> of_int \<lfloor>q\<rfloor>"
    using bnd by (simp only: of_int_le_iff)
  then have "(of_int b :: rat) ^ (digitCount b \<lfloor>q\<rfloor> - 1) \<le> of_int \<lfloor>q\<rfloor>"
    by (simp only: of_int_power)
  then show "of_int b ^ (digitCount b \<lfloor>q\<rfloor> - 1) \<le> q"
    using of_int_floor_le [of q] by (rule order_trans)
  have "\<lfloor>q\<rfloor> < b ^ digitCount b \<lfloor>q\<rfloor>" using bnd by simp
  then have "q < of_int (b ^ digitCount b \<lfloor>q\<rfloor>)" by (simp only: floor_less_iff)
  then show "q < of_int b ^ digitCount b \<lfloor>q\<rfloor>" by simp
qed

lemma reciprocal_bounds:
  fixes q c :: rat
  assumes "0 < q" and "0 < c"
  shows "c \<le> 1 / q \<Longrightarrow> q \<le> 1 / c" and "1 / q < c \<Longrightarrow> 1 / c < q"
  using assms by (simp_all add: field_simps)

lemma binaryExponent_bounds:
  assumes "0 < q"
  shows "2 powi binaryExponent q \<le> q" and "q < 2 powi (binaryExponent q + 1)"
proof -
  have "2 powi binaryExponent q \<le> q \<and> q < 2 powi (binaryExponent q + 1)"
  proof (cases "1 \<le> q")
    case True
    define d where "d = digitCount 2 \<lfloor>q\<rfloor>"
    have d: "0 < d" "2 ^ (d - 1) \<le> q" "q < 2 ^ d"
      using floor_digit_bounds [OF True, of 2] by (simp_all add: d_def)
    obtain m where dm: "d = Suc m" using d(1) by (cases d) auto
    have e: "binaryExponent q = int m" using True dm by (simp add: binaryExponent_def d_def)
    have e1: "binaryExponent q + 1 = int (Suc m)" using e by simp
    show ?thesis unfolding e1 unfolding e power_int_of_nat using d dm by simp
  next
    case False
    define m where "m = digitCount 2 \<lfloor>1 / q\<rfloor> - 1"
    have r: "1 \<le> 1 / q" using False assms by simp
    have d: "0 < digitCount 2 \<lfloor>1 / q\<rfloor>" "2 ^ m \<le> 1 / q" "1 / q < 2 ^ digitCount 2 \<lfloor>1 / q\<rfloor>"
      using floor_digit_bounds [OF r, of 2] by (simp_all add: m_def)
    have dm: "digitCount 2 \<lfloor>1 / q\<rfloor> = Suc m" using d(1) by (simp add: m_def)
    have hi: "q \<le> 1 / 2 ^ m" using reciprocal_bounds(1) [OF assms _ d(2)] by simp
    have lo: "1 / 2 ^ Suc m < q" using reciprocal_bounds(2) [OF assms, of "2 ^ Suc m"] d(3) dm by simp
    have p0: "(2::rat) powi (- int m) = 1 / 2 ^ m" by (simp add: power_int_minus divide_inverse)
    have p1: "(2::rat) powi (- int m - 1) = 1 / 2 ^ Suc m"
    proof -
      have i: "- int m - 1 = - int (Suc m)" by simp
      show ?thesis unfolding i by (simp only: power_int_minus power_int_of_nat divide_inverse mult_1)
    qed
    show ?thesis
    proof (cases "q = 1 / 2 ^ m")
      case True
      then have e: "binaryExponent q = - int m"
        using False unfolding binaryExponent_def m_def Let_def by simp
      have "q < 2 powi (- int m + 1)"
      proof -
        have "(2::rat) powi (- int m) < 2 powi (- int m + 1)"
          by (intro power_int_strict_increasing) simp_all
        with True p0 show ?thesis by simp
      qed
      with True p0 show ?thesis unfolding e by simp
    next
      case ne: False
      then have e: "binaryExponent q = - int m - 1"
        using False unfolding binaryExponent_def m_def Let_def by simp
      have "q < 1 / 2 ^ m" using hi ne by simp
      with lo p0 p1 show ?thesis unfolding e by simp
    qed
  qed
  then show "2 powi binaryExponent q \<le> q" and "q < 2 powi (binaryExponent q + 1)" by simp_all
qed

lemma binaryExponent_unique:
  assumes "2 powi e \<le> q" and "q < 2 powi (e + 1)"
  shows "binaryExponent q = e"
proof -
  have q: "0 < q" using assms(1) by (rule less_le_trans [rotated]) simp
  note b = binaryExponent_bounds [OF q]
  have "(2::rat) powi binaryExponent q < 2 powi (e + 1)" using b(1) assms(2) by simp
  then have 1: "binaryExponent q < e + 1" by (intro powi_less_imp_less [of 2]) simp_all
  have "(2::rat) powi e < 2 powi (binaryExponent q + 1)" using b(2) assms(1) by simp
  then have 2: "e < binaryExponent q + 1" by (intro powi_less_imp_less [of 2]) simp_all
  from 1 2 show ?thesis by simp
qed

lemma decimalExponent_bounds:
  assumes "0 < x"
  shows "10 powi (decimalExponent x - 1) \<le> x" and "x < 10 powi decimalExponent x"
proof -
  have "10 powi (decimalExponent x - 1) \<le> x \<and> x < 10 powi decimalExponent x"
  proof (cases "1 \<le> x")
    case True
    define d where "d = digitCount 10 \<lfloor>x\<rfloor>"
    have d: "0 < d" "10 ^ (d - 1) \<le> x" "x < 10 ^ d"
      using floor_digit_bounds [OF True, of 10] by (simp_all add: d_def)
    obtain m where dm: "d = Suc m" using d(1) by (cases d) auto
    have e: "decimalExponent x = int (Suc m)" using True dm by (simp add: decimalExponent_def d_def)
    have e1: "decimalExponent x - 1 = int m" using e by simp
    show ?thesis unfolding e1 unfolding e power_int_of_nat using d dm by simp
  next
    case False
    define d where "d = digitCount 10 \<lfloor>1 / x\<rfloor>"
    have r: "1 \<le> 1 / x" using False assms by simp
    have d: "0 < d" "10 ^ (d - 1) \<le> 1 / x" "1 / x < 10 ^ d"
      using floor_digit_bounds [OF r, of 10] by (simp_all add: d_def)
    obtain m where dm: "d = Suc m" using d(1) by (cases d) auto
    have hi: "x \<le> 1 / 10 ^ m" using reciprocal_bounds(1) [OF assms _ d(2)] dm by simp
    have lo: "1 / 10 ^ Suc m < x" using reciprocal_bounds(2) [OF assms, of "10 ^ Suc m"] d(3) dm by simp
    have p0: "(10::rat) powi (- int m) = 1 / 10 ^ m" by (simp add: power_int_minus divide_inverse)
    have p1: "(10::rat) powi (- int (Suc m)) = 1 / 10 ^ Suc m"
      by (simp only: power_int_minus power_int_of_nat divide_inverse mult_1)
    show ?thesis
    proof (cases "x = 1 / 10 ^ m")
      case True
      then have e: "decimalExponent x = 1 - int m"
        using False unfolding decimalExponent_def d_def [symmetric] Let_def by (simp add: dm)
      have e1: "decimalExponent x - 1 = - int m" using e by simp
      have "x < 10 powi (1 - int m)"
      proof -
        have "(10::rat) powi (- int m) < 10 powi (1 - int m)"
          by (intro power_int_strict_increasing) simp_all
        with True p0 show ?thesis by simp
      qed
      moreover have "10 powi (- int m) \<le> x" using True p0 by simp
      ultimately show ?thesis unfolding e1 unfolding e by simp
    next
      case ne: False
      then have e: "decimalExponent x = - int m"
        using False unfolding decimalExponent_def d_def [symmetric] Let_def by (simp add: dm)
      have e1: "decimalExponent x - 1 = - int (Suc m)" using e by simp
      have "x < 1 / 10 ^ m" using hi ne by simp
      with lo p0 p1 show ?thesis unfolding e1 unfolding e by simp
    qed
  qed
  then show "10 powi (decimalExponent x - 1) \<le> x" and "x < 10 powi decimalExponent x"
    by simp_all
qed

text \<open>Rounding to the nearest integer.\<close>

lemma roundHalfEven_near:
  assumes "\<bar>t - of_int M\<bar> < 1 / 2"
  shows "roundHalfEven t = M"
proof (cases "of_int M \<le> t")
  case True
  with assms have "t < of_int M + 1" by linarith
  with True have f: "\<lfloor>t\<rfloor> = M" by (intro floor_unique) simp_all
  from assms True have "t - of_int M < 1 / 2" by linarith
  then show ?thesis by (simp add: roundHalfEven_def Let_def f)
next
  case False
  with assms have lo: "of_int (M - 1) \<le> t" and hi: "t < of_int (M - 1) + 1" by simp_all
  then have f: "\<lfloor>t\<rfloor> = M - 1" by (intro floor_unique)
  from assms False have "1 / 2 < t - of_int (M - 1)" by simp
  then show ?thesis by (simp add: roundHalfEven_def Let_def f)
qed

lemma roundHalfEven_bounds: "\<bar>of_int (roundHalfEven t) - t\<bar> \<le> 1 / 2"
proof -
  have "of_int \<lfloor>t\<rfloor> \<le> t" "t < of_int \<lfloor>t\<rfloor> + 1" by linarith+
  then show ?thesis by (auto simp: roundHalfEven_def Let_def)
qed

text \<open>
  The Number value of a positive real, given its binade: for \<open>E \<ge> - 1022\<close> with
  \<open>v < 2 ^ (E + 1)\<close>, and \<open>2 ^ E \<le> v\<close> unless \<open>E = - 1022\<close>, the unit in the last place
  is \<open>2 ^ (E - 52)\<close>.
\<close>

lemma binade:
  assumes "0 < v" and "- 1022 \<le> E" and "v < 2 powi (E + 1)" and "E = - 1022 \<or> 2 powi E \<le> v"
  shows "max (binaryExponent v) (- 1022) = E"
proof (cases "2 powi E \<le> v")
  case True
  then have "binaryExponent v = E" using assms(3) by (rule binaryExponent_unique)
  with assms(2) show ?thesis by simp
next
  case False
  with assms(4) have E: "E = - 1022" by simp
  have "(2::rat) powi binaryExponent v < 2 powi (E + 1)"
    using binaryExponent_bounds(1) [OF assms(1)] assms(3) by simp
  then have "binaryExponent v < E + 1" by (intro powi_less_imp_less [of 2]) simp_all
  with E show ?thesis by simp
qed

lemma numberValue_binade:
  assumes "0 < v" and "- 1022 \<le> E" and "v < 2 powi (E + 1)" and "E = - 1022 \<or> 2 powi E \<le> v"
    and "roundHalfEven (v / 2 powi (E - 52)) = M" and "0 < M"
    and "of_int M * 2 powi (E - 52) < (2::rat) powi 1024"
  shows "numberValue v = Finite (of_int M * 2 powi (E - 52))"
proof -
  have a: "\<bar>v\<bar> = v" using assms(1) by simp
  have e: "max (binaryExponent v) (- 1022) = E" using assms(1-4) by (rule binade)
  have nz: "of_int M * (2::rat) powi (E - 52) \<noteq> 0" using assms(6) by simp
  have big: "\<not> (2::rat) powi 1024 \<le> of_int M * 2 powi (E - 52)" using assms(7) by simp
  have v: "v \<noteq> 0" "\<not> v < 0" using assms(1) by simp_all
  show ?thesis
    unfolding numberValue_def Let_def a e assms(5)
    by (simp only: v nz big if_False)
qed

text \<open>
  A positive double is \<open>M * 2 ^ (E - 52)\<close> with \<open>M < 2 ^ 53\<close> and \<open>- 1022 \<le> E\<close>, and
  with \<open>2 ^ 52 \<le> M\<close> unless \<open>E = - 1022\<close>.
\<close>

lemma powi_shift: "(2::rat) powi (e + int j) = 2 powi e * 2 ^ j"
  by (simp add: power_int_add)

lemma double_structure:
  assumes "0 < x" and "numberValue x = Finite x"
  obtains E M where "- 1022 \<le> E" and "x = of_int M * 2 powi (E - 52)" and "0 < M"
    and "M < 2 ^ 53" and "E = - 1022 \<or> 2 ^ 52 \<le> M" and "x < 2 powi 1024"
proof -
  define E where "E = max (binaryExponent x) (- 1022)"
  define u where "u = (2::rat) powi (E - 52)"
  define M where "M = roundHalfEven (x / u)"
  have u0: "0 < u" by (simp add: u_def)
  have a: "\<bar>x\<bar> = x" "x \<noteq> 0" "\<not> x < 0" using assms(1) by simp_all
  have nv: "numberValue x =
      (if 2 powi 1024 \<le> of_int M * u then Infinity
       else if of_int M * u = 0 then Finite 0 else Finite (of_int M * u))"
    unfolding numberValue_def Let_def a E_def [symmetric] u_def [symmetric] M_def [symmetric]
    by (simp only: a if_False)
  from nv assms(2) have big: "\<not> 2 powi 1024 \<le> of_int M * u"
    by (auto split: if_splits)
  from nv assms(2) assms(1) big have x: "x = of_int M * u"
    by (auto split: if_splits)
  have M0: "0 < M"
  proof -
    have "0 < (of_int M :: rat) * u" using x assms(1) by simp
    then have "0 < (of_int M :: rat)" using u0 by (simp add: zero_less_mult_iff)
    then show ?thesis by simp
  qed
  have i53: "E - 52 + int 53 = E + 1" and i52: "E - 52 + int 52 = E" by simp_all
  have p53: "(2::rat) powi (E + 1) = u * 2 ^ 53"
    using powi_shift [of "E - 52" 53] unfolding i53 u_def .
  have p52: "(2::rat) powi E = u * 2 ^ 52"
    using powi_shift [of "E - 52" 52] unfolding i52 u_def .
  have "binaryExponent x + 1 \<le> E + 1" by (simp add: E_def)
  then have "(2::rat) powi (binaryExponent x + 1) \<le> 2 powi (E + 1)"
    by (intro power_int_increasing) simp_all
  with binaryExponent_bounds(2) [OF assms(1)] have "x < u * 2 ^ 53" unfolding p53 by simp
  then have "of_int M * u < 2 ^ 53 * u" using x by (simp add: mult.commute)
  then have "(of_int M :: rat) < 2 ^ 53" using u0 by (simp only: mult_less_cancel_right_pos)
  then have "(of_int M :: rat) < of_int (2 ^ 53)" by simp
  then have M53: "M < 2 ^ 53" by (simp only: of_int_less_iff)
  have norm: "E = - 1022 \<or> 2 ^ 52 \<le> M"
  proof (cases "E = - 1022")
    case True
    then show ?thesis by simp
  next
    case False
    then have "E = binaryExponent x" by (simp add: E_def max_def split: if_splits)
    with binaryExponent_bounds(1) [OF assms(1)] have "u * 2 ^ 52 \<le> x" unfolding p52 [symmetric] by simp
    then have "2 ^ 52 * u \<le> of_int M * u" using x by (simp add: mult.commute)
    then have "(2::rat) ^ 52 \<le> of_int M" using u0 by (simp only: mult_le_cancel_right_pos)
    then have "(of_int (2 ^ 52) :: rat) \<le> of_int M" by simp
    then have "2 ^ 52 \<le> M" by (simp only: of_int_le_iff)
    then show ?thesis by simp
  qed
  have "- 1022 \<le> E" by (simp add: E_def)
  moreover have "x < 2 powi 1024" using big x by simp
  ultimately show ?thesis using that [of E M] x M0 M53 norm by (simp add: u_def)
qed

text \<open>
  A real within a relative distance of \<open>1 / (2 * 10 ^ 16)\<close> of a positive double has that
  double as its Number value: the distance is less than half a unit in the last place,
  also below a power of two, where the unit halves.
\<close>

lemma numberValue_close:
  assumes "0 < x" and "numberValue x = Finite x" and "\<bar>v - x\<bar> * (2 * 10 ^ 16) \<le> x"
  shows "numberValue v = Finite x"
proof -
  from assms(1,2) obtain E M where E: "- 1022 \<le> E" and x: "x = of_int M * 2 powi (E - 52)"
    and M0: "0 < M" and M53: "M < 2 ^ 53" and norm: "E = - 1022 \<or> 2 ^ 52 \<le> M"
    and fin: "x < 2 powi 1024"
    by (rule double_structure)
  define u where "u = (2::rat) powi (E - 52)"
  define t where "t = v / u"
  define m where "m = (of_int M :: rat)"
  have u0: "0 < u" by (simp add: u_def)
  have v: "v = t * u" using u0 by (simp add: t_def)
  have xu: "x = m * u" using x by (simp add: u_def m_def)
  have m1: "1 \<le> m"
  proof -
    have "1 \<le> M" using M0 by simp
    then have "(of_int 1 :: rat) \<le> of_int M" by (simp only: of_int_le_iff)
    then show ?thesis by (simp add: m_def)
  qed
  have m53: "m \<le> 9007199254740991"
  proof -
    have "M \<le> 9007199254740991" using M53 by simp
    then have "(of_int M :: rat) \<le> of_int 9007199254740991" by (simp only: of_int_le_iff)
    then show ?thesis by (simp add: m_def)
  qed
  have d: "\<bar>t - m\<bar> * 20000000000000000 \<le> m"
  proof -
    have "v - x = (t - m) * u" by (simp add: v xu algebra_simps)
    then have "\<bar>v - x\<bar> = \<bar>t - m\<bar> * u" using u0 by (simp add: abs_mult)
    with assms(3) have "(\<bar>t - m\<bar> * 20000000000000000) * u \<le> m * u" by (simp add: xu mult_ac)
    then show ?thesis using u0 by (simp only: mult_le_cancel_right_pos)
  qed
  have d1: "20000000000000000 * t - 20000000000000000 * m \<le> m"
  proof -
    have "(t - m) * 20000000000000000 \<le> \<bar>t - m\<bar> * 20000000000000000"
      by (intro mult_right_mono) simp_all
    with d show ?thesis by (simp add: algebra_simps)
  qed
  have d2: "20000000000000000 * m - 20000000000000000 * t \<le> m"
  proof -
    have "(m - t) * 20000000000000000 \<le> \<bar>t - m\<bar> * 20000000000000000"
      by (intro mult_right_mono) simp_all
    with d show ?thesis by (simp add: algebra_simps)
  qed
  have t0: "0 < t" using d2 m1 by linarith
  have v0: "0 < v" using t0 u0 by (simp add: v)
  have thi: "t < 9007199254740992" using d1 m53 by linarith
  have i53: "E - 52 + int 53 = E + 1" and i52: "E - 52 + int 52 = E"
    and i51: "E - 52 + int 51 = E - 1 " and i1: "E - 1 - 52 + int 1 = E - 52"
    and i0: "E - 1 + 1 = E" by simp_all
  have p53: "(2::rat) powi (E + 1) = u * 9007199254740992"
    using powi_shift [of "E - 52" 53] unfolding i53 u_def by simp
  have p52: "(2::rat) powi E = u * 4503599627370496"
    using powi_shift [of "E - 52" 52] unfolding i52 u_def by simp
  have p51: "(2::rat) powi (E - 1) = u * 2251799813685248"
    using powi_shift [of "E - 52" 51] unfolding i51 u_def by simp
  have ph: "(2::rat) powi (E - 1 - 52) = u / 2"
    using powi_shift [of "E - 1 - 52" 1] unfolding i1 u_def by simp
  show ?thesis
  proof (cases "E = - 1022 \<or> 4503599627370496 \<le> t")
    case True
    have 3: "v < 2 powi (E + 1)" unfolding p53 v using thi u0 by (simp add: mult.commute)
    have 4: "E = - 1022 \<or> 2 powi E \<le> v" unfolding p52 v using True u0 by (auto simp: mult.commute)
    have "\<bar>t - m\<bar> < 1 / 2" using d1 d2 m53 by linarith
    then have "\<bar>t - of_int M\<bar> < 1 / 2" by (simp only: m_def)
    then have 5: "roundHalfEven (v / 2 powi (E - 52)) = M"
      unfolding u_def [symmetric] t_def [symmetric] by (rule roundHalfEven_near)
    have 7: "of_int M * 2 powi (E - 52) < (2::rat) powi 1024" using fin x by simp
    show ?thesis using numberValue_binade [OF v0 E 3 4 5 M0 7] x by simp
  next
    case False
    then have En: "- 1022 \<le> E - 1" and tlo: "t < 4503599627370496" using E by simp_all
    from False norm have "2 ^ 52 \<le> M" by simp
    then have "4503599627370496 \<le> M" by simp
    then have "(of_int 4503599627370496 :: rat) \<le> of_int M" by (simp only: of_int_le_iff)
    then have mlo: "4503599627370496 \<le> m" by (simp add: m_def)
    have "\<not> 4503599627370497 \<le> m"
    proof
      assume "4503599627370497 \<le> m"
      with d2 tlo show False by linarith
    qed
    moreover have "4503599627370497 \<le> m" if "M \<noteq> 4503599627370496"
    proof -
      have "4503599627370497 \<le> M" using that \<open>4503599627370496 \<le> M\<close> by simp
      then have "(of_int 4503599627370497 :: rat) \<le> of_int M" by (simp only: of_int_le_iff)
      then show ?thesis by (simp add: m_def)
    qed
    ultimately have M: "M = 4503599627370496" by blast
    then have m: "m = 4503599627370496" by (simp add: m_def)
    have 3: "v < 2 powi (E - 1 + 1)" unfolding i0 p52 v using tlo u0 by (simp add: mult.commute)
    have "2251799813685248 \<le> t" using d2 unfolding m by linarith
    then have 4: "E - 1 = - 1022 \<or> 2 powi (E - 1) \<le> v"
      unfolding p51 v using u0 by (simp add: mult.commute)
    have q: "v / (u / 2) = 2 * t" using u0 by (simp add: v)
    have "\<bar>2 * t - 9007199254740992\<bar> < 1 / 2" using d1 d2 unfolding m by linarith
    then have "\<bar>2 * t - of_int 9007199254740992\<bar> < 1 / 2" by simp
    then have 5: "roundHalfEven (v / 2 powi (E - 1 - 52)) = 9007199254740992"
      unfolding ph q by (rule roundHalfEven_near)
    have r: "of_int 9007199254740992 * 2 powi (E - 1 - 52) = x" unfolding ph xu m by simp
    have 7: "of_int 9007199254740992 * 2 powi (E - 1 - 52) < (2::rat) powi 1024"
      unfolding r using fin .
    show ?thesis using numberValue_binade [OF v0 En 3 4 5 _ 7] unfolding r by simp
  qed
qed

text \<open>
  Seventeen digits are enough: a decimal within half a unit of the seventeenth digit of a
  positive double has that double as its Number value.
\<close>

lemma powi10_shift: "(10::rat) powi (e + int j) = 10 powi e * 10 ^ j"
  by (simp add: power_int_add)

lemma decimal_close:
  assumes "0 < x" and "numberValue x = Finite x"
    and "\<bar>of_int s - x / 10 powi (decimalExponent x - 17)\<bar> \<le> 1 / 2"
  shows "numberValue (of_int s * 10 powi (decimalExponent x - 17)) = Finite x"
proof -
  define u where "u = (10::rat) powi (decimalExponent x - 17)"
  define T where "T = x / u"
  have u0: "0 < u" by (simp add: u_def)
  have x: "x = T * u" using u0 by (simp add: T_def)
  have i: "decimalExponent x - 17 + int 16 = decimalExponent x - 1" by simp
  have p: "(10::rat) powi (decimalExponent x - 1) = u * 10000000000000000"
    using powi10_shift [of "decimalExponent x - 17" 16] unfolding i u_def by simp
  have "u * 10000000000000000 \<le> x"
    using decimalExponent_bounds(1) [OF assms(1)] unfolding p .
  then have "u * 10000000000000000 \<le> T * u" by (simp only: x [symmetric])
  then have "10000000000000000 * u \<le> T * u" by (simp only: mult.commute)
  then have T: "10000000000000000 \<le> T" using u0 by (simp only: mult_le_cancel_right_pos)
  have d: "\<bar>of_int s - T\<bar> \<le> 1 / 2" using assms(3) by (simp only: u_def T_def)
  have "of_int s * u - x = (of_int s - T) * u" by (simp add: x algebra_simps)
  then have "\<bar>of_int s * u - x\<bar> = \<bar>of_int s - T\<bar> * u" using u0 by (simp add: abs_mult)
  also have "\<dots> \<le> 1 / 2 * u" using d u0 by (intro mult_right_mono) simp_all
  finally have "\<bar>of_int s * u - x\<bar> * (2 * 10 ^ 16) \<le> 10000000000000000 * u" by simp
  also have "\<dots> \<le> T * u" using T u0 by (intro mult_right_mono) simp_all
  finally have "\<bar>of_int s * u - x\<bar> * (2 * 10 ^ 16) \<le> x" by (simp only: x)
  with assms(1,2) have "numberValue (of_int s * u) = Finite x" by (rule numberValue_close)
  then show ?thesis by (simp only: u_def)
qed

text \<open>
  The digits \<open>toString\<close> takes for a positive double: \<open>k\<close> digits \<open>s\<close>, not starting
  with zero, and \<open>s * 10 ^ (n - k)\<close> is a real whose Number value is the double.
\<close>

lemma shortestDigits_correct:
  assumes "0 < x" and "numberValue x = Finite x"
  shows "\<exists>n k s. shortestDigits x = (n, k, s) \<and> 0 < k \<and> 10 ^ (k - 1) \<le> s \<and> s < 10 ^ k
           \<and> numberValue (of_int s * 10 powi (n - int k)) = Finite x"
proof (cases "List.find (\<lambda>k. digitCandidates x k \<noteq> []) [1 ..< 17]")
  case (Some k0)
  then have "k0 \<in> set [1 ..< 17]" and "digitCandidates x k0 \<noteq> []"
    by (auto simp: find_Some_iff)
  then have "digitCandidates x k0 \<noteq> []" "1 \<le> k0" "k0 < 17" by simp_all
  then obtain n k s where "shortestDigits x = (n, k, s)" "0 < k" "representsWith x k (n, s)"
    using shortestDigits_represents by blast
  then show ?thesis by (auto simp: representsWith_def)
next
  case None
  define n0 where "n0 = decimalExponent x"
  define u where "u = (10::rat) powi (n0 - 17)"
  define T where "T = x / u"
  define s where "s = roundHalfEven T"
  have u0: "0 < u" by (simp add: u_def)
  have x: "x = T * u" using u0 by (simp add: T_def)
  have sd: "shortestDigits x = (n0, 17, s)"
    by (simp only: shortestDigits_def None option.case n0_def u_def T_def s_def)
  have i16: "n0 - 17 + int 16 = n0 - 1" and i17: "n0 - 17 + int 17 = n0" by simp_all
  have p16: "(10::rat) powi (n0 - 1) = u * 10000000000000000"
    using powi10_shift [of "n0 - 17" 16] unfolding i16 u_def by simp
  have p17: "(10::rat) powi n0 = u * 100000000000000000"
    using powi10_shift [of "n0 - 17" 17] unfolding i17 u_def by simp
  have "u * 10000000000000000 \<le> x"
    using decimalExponent_bounds(1) [OF assms(1)] unfolding n0_def [symmetric] p16 .
  then have "u * 10000000000000000 \<le> T * u" by (simp only: x [symmetric])
  then have "10000000000000000 * u \<le> T * u" by (simp only: mult.commute)
  then have Tlo: "10000000000000000 \<le> T" using u0 by (simp only: mult_le_cancel_right_pos)
  have "x < u * 100000000000000000"
    using decimalExponent_bounds(2) [OF assms(1)] unfolding n0_def [symmetric] p17 .
  then have "T * u < u * 100000000000000000" by (simp only: x [symmetric])
  then have "T * u < 100000000000000000 * u" by (simp only: mult.commute)
  then have Thi: "T < 100000000000000000" using u0 by (simp only: mult_less_cancel_right_pos)
  have near: "\<bar>of_int s - T\<bar> \<le> 1 / 2" unfolding s_def by (rule roundHalfEven_bounds)
  have slo: "10000000000000000 \<le> s"
  proof -
    have "(of_int 10000000000000000 :: rat) \<le> T" using Tlo by simp
    then have "10000000000000000 \<le> \<lfloor>T\<rfloor>" by (simp only: le_floor_iff)
    then show ?thesis using roundHalfEven_ge_floor [of T] unfolding s_def by linarith
  qed
  have sle: "s \<le> 100000000000000000"
  proof -
    have "(of_int s :: rat) < 100000000000000000 + 1" using near Thi by linarith
    then have "(of_int s :: rat) < of_int (100000000000000000 + 1)" by simp
    then have "s < 100000000000000000 + 1" by (simp only: of_int_less_iff)
    then show ?thesis by simp
  qed
  have "s \<noteq> 100000000000000000"
  proof
    assume top: "s = 100000000000000000"
    have "\<bar>of_int 100000000000000000 - x / 10 powi (decimalExponent x - 17)\<bar> \<le> 1 / 2"
      using near unfolding top T_def u_def n0_def .
    with assms have "numberValue (of_int 100000000000000000 * 10 powi (decimalExponent x - 17))
        = Finite x" by (rule decimal_close)
    then have nv: "numberValue (10 powi n0) = Finite x"
      unfolding p17 n0_def [symmetric] u_def [symmetric] by (simp add: mult.commute)
    have q: "x / 10 powi n0 = T / 100000000000000000" unfolding p17 x using u0 by simp
    have "0 < T" using Tlo by linarith
    then have c: "\<lceil>x / 10 powi n0\<rceil> = 1" unfolding q using Thi by (intro ceiling_unique) simp_all
    have r: "representsWith x 1 (n0 + 1, 1)" using nv by (simp add: representsWith_def)
    have "(n0 + 1, 1) \<in> set (digitCandidates x 1)"
      unfolding digitCandidates_def n0_def [symmetric] using r c by (simp add: Let_def)
    then have "digitCandidates x 1 \<noteq> []" by auto
    moreover have "(1::nat) \<in> set [1 ..< 17]" by simp
    ultimately have "List.find (\<lambda>k. digitCandidates x k \<noteq> []) [1 ..< 17] \<noteq> None"
      by (auto simp only: find_None_iff)
    with None show False by simp
  qed
  with sle have shi: "s < 100000000000000000" by simp
  have "\<bar>of_int s - x / 10 powi (decimalExponent x - 17)\<bar> \<le> 1 / 2"
    using near unfolding T_def u_def n0_def .
  with assms have "numberValue (of_int s * 10 powi (decimalExponent x - 17)) = Finite x"
    by (rule decimal_close)
  then have "numberValue (of_int s * 10 powi (n0 - int 17)) = Finite x" by (simp add: n0_def)
  with sd slo shi show ?thesis by simp
qed

text \<open>Rounding to a double gives a double.\<close>

lemma numberValue_idem_pos:
  assumes "0 < a" and "numberValue a = Finite y"
  shows "numberValue y = Finite y"
proof -
  define E where "E = max (binaryExponent a) (- 1022)"
  define u where "u = (2::rat) powi (E - 52)"
  define M where "M = roundHalfEven (a / u)"
  have u0: "0 < u" by (simp add: u_def)
  have E: "- 1022 \<le> E" by (simp add: E_def)
  have ab: "\<bar>a\<bar> = a" "a \<noteq> 0" "\<not> a < 0" using assms(1) by simp_all
  have nv: "numberValue a =
      (if 2 powi 1024 \<le> of_int M * u then Infinity
       else if of_int M * u = 0 then Finite 0 else Finite (of_int M * u))"
    unfolding numberValue_def Let_def ab E_def [symmetric] u_def [symmetric] M_def [symmetric]
    by (simp only: ab if_False)
  from nv assms(2) have big: "of_int M * u < 2 powi 1024" by (auto split: if_splits)
  show ?thesis
  proof (cases "of_int M * u = 0")
    case True
    with nv assms(2) big have "y = 0" by (auto split: if_splits)
    then show ?thesis by (simp add: numberValue_def)
  next
    case False
    with nv assms(2) big have y: "y = of_int M * u" by (auto split: if_splits)
    have "0 \<le> a / u" using assms(1) u0 by simp
    then have "0 \<le> \<lfloor>a / u\<rfloor>" by simp
    then have "0 \<le> M" using roundHalfEven_ge_floor [of "a / u"] unfolding M_def by linarith
    moreover have "M \<noteq> 0" using False by auto
    ultimately have M0: "0 < M" by simp
    have y0: "0 < y" unfolding y using M0 u0 by simp
    have i53: "E - 52 + int 53 = E + 1" and i52: "E - 52 + int 52 = E"
      and i1: "E - 52 + int 1 = E + 1 - 52" and i54: "E - 52 + int 54 = E + 1 + 1" by simp_all
    have p54: "(2::rat) powi (E + 1 + 1) = u * 18014398509481984"
      using powi_shift [of "E - 52" 54] unfolding i54 u_def by simp
    have p53: "(2::rat) powi (E + 1) = u * 9007199254740992"
      using powi_shift [of "E - 52" 53] unfolding i53 u_def by simp
    have p52: "(2::rat) powi E = u * 4503599627370496"
      using powi_shift [of "E - 52" 52] unfolding i52 u_def by simp
    have p1: "(2::rat) powi (E + 1 - 52) = u * 2"
      using powi_shift [of "E - 52" 1] unfolding i1 u_def by simp
    have "binaryExponent a + 1 \<le> E + 1" by (simp add: E_def)
    then have "(2::rat) powi (binaryExponent a + 1) \<le> 2 powi (E + 1)"
      by (intro power_int_increasing) simp_all
    with binaryExponent_bounds(2) [OF assms(1)] have "a < u * 9007199254740992"
      unfolding p53 by simp
    then have thi: "a / u < 9007199254740992" using u0 by (simp add: field_simps)
    have "(of_int M :: rat) < 9007199254740992 + 1"
      using roundHalfEven_bounds [of "a / u"] thi unfolding M_def by linarith
    then have "(of_int M :: rat) < of_int (9007199254740992 + 1)" by simp
    then have "M < 9007199254740992 + 1" by (simp only: of_int_less_iff)
    then have Mle: "M \<le> 9007199254740992" by simp
    have Mlo: "4503599627370496 \<le> M" if "E \<noteq> - 1022"
    proof -
      from that have "E = binaryExponent a" by (simp add: E_def max_def split: if_splits)
      with binaryExponent_bounds(1) [OF assms(1)] have "u * 4503599627370496 \<le> a"
        unfolding p52 [symmetric] by simp
      then have "(of_int 4503599627370496 :: rat) \<le> a / u" using u0 by (simp add: field_simps)
      then have "4503599627370496 \<le> \<lfloor>a / u\<rfloor>" by (simp only: le_floor_iff)
      then show ?thesis using roundHalfEven_ge_floor [of "a / u"] unfolding M_def by linarith
    qed
    show ?thesis
    proof (cases "M = 9007199254740992")
      case True
      have yu: "y = u * 9007199254740992" unfolding y True by simp
      have 2: "- 1022 \<le> E + 1" using E by simp
      have 3: "y < 2 powi (E + 1 + 1)" unfolding p54 yu using u0 by simp
      have 4: "E + 1 = - 1022 \<or> 2 powi (E + 1) \<le> y" unfolding p53 yu by simp
      have q: "y / (u * 2) = of_int 4503599627370496" unfolding yu using u0 by simp
      have 5: "roundHalfEven (y / 2 powi (E + 1 - 52)) = 4503599627370496"
        unfolding p1 q by (rule roundHalfEven_of_int)
      have r: "of_int 4503599627370496 * 2 powi (E + 1 - 52) = y" unfolding p1 yu by simp
      have 7: "of_int 4503599627370496 * 2 powi (E + 1 - 52) < (2::rat) powi 1024"
        unfolding r using big y by simp
      show ?thesis using numberValue_binade [OF y0 2 3 4 5 _ 7] unfolding r by simp
    next
      case False
      with Mle have "M < 9007199254740992" by simp
      then have "(of_int M :: rat) < of_int 9007199254740992" by (simp only: of_int_less_iff)
      then have m53: "(of_int M :: rat) < 9007199254740992" by simp
      have 3: "y < 2 powi (E + 1)" unfolding p53 y using m53 u0 by (simp add: mult.commute)
      have 4: "E = - 1022 \<or> 2 powi E \<le> y"
      proof (cases "E = - 1022")
        case True
        then show ?thesis by simp
      next
        case False
        then have "4503599627370496 \<le> M" by (rule Mlo)
        then have "(of_int 4503599627370496 :: rat) \<le> of_int M" by (simp only: of_int_le_iff)
        then have "4503599627370496 \<le> (of_int M :: rat)" by simp
        then have "2 powi E \<le> y" unfolding p52 y using u0 by (simp add: mult.commute)
        then show ?thesis by simp
      qed
      have q: "y / u = of_int M" unfolding y using u0 by simp
      have 5: "roundHalfEven (y / 2 powi (E - 52)) = M"
        unfolding u_def [symmetric] q by (rule roundHalfEven_of_int)
      have 7: "of_int M * 2 powi (E - 52) < (2::rat) powi 1024"
        unfolding u_def [symmetric] using big .
      show ?thesis using numberValue_binade [OF y0 E 3 4 5 M0 7] unfolding u_def [symmetric] y by simp
    qed
  qed
qed

lemma numberValue_idem:
  assumes "numberValue x = Finite y"
  shows "numberValue y = Finite y"
proof -
  consider "x = 0" | "0 < x" | "x < 0" by linarith
  then show ?thesis
  proof cases
    case 1
    with assms have "y = 0" by (simp add: numberValue_def)
    then show ?thesis by (simp add: numberValue_def)
  next
    case 2
    then show ?thesis using assms by (rule numberValue_idem_pos)
  next
    case 3
    show ?thesis
    proof (cases "y = 0")
      case True
      then show ?thesis by (simp add: numberValue_def)
    next
      case False
      from numberValue_minus [OF assms False] have m: "numberValue (- x) = Finite (- y)" .
      have "0 < - x" using 3 by simp
      then have "numberValue (- y) = Finite (- y)" using m by (rule numberValue_idem_pos)
      moreover have "- y \<noteq> 0" using False by simp
      ultimately have "numberValue (- (- y)) = Finite (- (- y))" by (rule numberValue_minus)
      then show ?thesis by simp
    qed
  qed
qed

lemma isDouble_numberValue: "isDouble (numberValue x)"
  by (cases "numberValue x") (simp_all add: isDouble_def numberValue_idem)

lemma isDouble_StringToNumber: "isDouble (StringToNumber s)"
proof -
  have z: "isDouble (Finite 0)" by (simp add: isDouble_def numberValue_def)
  have i: "isDouble Infinity" "isDouble NegInfinity" "isDouble NaN" "isDouble NegZero"
    by (simp_all add: isDouble_def)
  have d: "isDouble (strDecimalLiteral t)" for t
    unfolding strDecimalLiteral_def Let_def
    by (auto simp: isDouble_numberValue i split: prod.splits option.splits)
  show ?thesis
    unfolding StringToNumber_def Let_def
    by (auto simp: z d isDouble_numberValue split: option.splits)
qed

text \<open>
  \<open>Number\<close> reads back what \<open>toString\<close> writes, for every number but NaN; the zeros
  are both written \<open>0\<close>.
\<close>

lemma toString_positive:
  assumes "0 < x" and "numberValue x = Finite x"
  shows "\<exists>m. toString (Finite x) = formatDigits (shortestDigits x)
           \<and> strUnsignedDecimalLiteral (formatDigits (shortestDigits x)) = Some m
           \<and> numberValue m = Finite x
           \<and> (\<forall>c \<in> set (formatDigits (shortestDigits x)). \<not> isWhiteSpace c)"
proof -
  from shortestDigits_correct [OF assms] obtain n k s where
    sd: "shortestDigits x = (n, k, s)" and k: "0 < k" and lo: "10 ^ (k - 1) \<le> s"
    and hi: "s < 10 ^ k" and nv: "numberValue (of_int s * 10 powi (n - int k)) = Finite x"
    by blast
  have "toString (Finite x) = formatDigits (shortestDigits x)" using assms(1) by simp
  with parse_formatDigits [OF k lo hi, of n] nv show ?thesis unfolding sd by blast
qed

lemma literal_nonempty: "strUnsignedDecimalLiteral s = Some m \<Longrightarrow> s \<noteq> []"
  by (auto simp: strUnsignedDecimalLiteral_def Let_def)

lemma Infinity_not_literal: "strUnsignedDecimalLiteral ''Infinity'' = None"
  by (simp add: strUnsignedDecimalLiteral_def Let_def isDigit_def)

lemma StringToNumber_Infinity:
  "StringToNumber ''Infinity'' = Infinity" "trim ''Infinity'' = ''Infinity''"
  "StringToNumber ''-Infinity'' = NegInfinity" "trim ''-Infinity'' = ''-Infinity''"
proof -
  show t1: "trim ''Infinity'' = ''Infinity''" by (simp add: trim_def isWhiteSpace_def)
  show t2: "trim ''-Infinity'' = ''-Infinity''" by (simp add: trim_def isWhiteSpace_def)
  show "StringToNumber ''Infinity'' = Infinity"
    unfolding StringToNumber_def t1 Let_def
    by (simp add: nonDecimalIntegerLiteral_def strDecimalLiteral_def)
  show "StringToNumber ''-Infinity'' = NegInfinity"
    unfolding StringToNumber_def t2 Let_def
    by (simp add: nonDecimalIntegerLiteral_def strDecimalLiteral_def)
qed

lemma StringToNumber_toString:
  assumes "isDouble g" and "\<not> isNaN g" and "\<not> isZero g"
  shows "StringToNumber (toString g) = g" and "trim (toString g) \<noteq> []"
proof -
  have "StringToNumber (toString g) = g \<and> trim (toString g) \<noteq> []"
  proof (cases g)
    case NaN
    with assms(2) show ?thesis by (simp add: isNaN_def)
  next
    case Infinity
    then show ?thesis by (simp add: StringToNumber_Infinity)
  next
    case NegInfinity
    then show ?thesis by (simp add: StringToNumber_Infinity)
  next
    case NegZero
    with assms(3) show ?thesis by (simp add: isZero_def)
  next
    case (Finite x)
    with assms(1,3) have dx: "numberValue x = Finite x" and x0: "x \<noteq> 0"
      by (simp_all add: isDouble_def isZero_def)
    show ?thesis
    proof (cases "0 < x")
      case True
      from toString_positive [OF True dx] obtain m where
        ts: "toString (Finite x) = formatDigits (shortestDigits x)"
        and lit: "strUnsignedDecimalLiteral (formatDigits (shortestDigits x)) = Some m"
        and nv: "numberValue m = Finite x"
        and ws: "\<forall>c \<in> set (formatDigits (shortestDigits x)). \<not> isWhiteSpace c"
        by blast
      have "StringToNumber (formatDigits (shortestDigits x)) = numberValue m"
        using lit ws by (intro literal_StringToNumber) simp_all
      moreover have "trim (formatDigits (shortestDigits x)) = formatDigits (shortestDigits x)"
        using ws by (intro trim_id) simp
      ultimately show ?thesis
        unfolding Finite ts using nv literal_nonempty [OF lit] by simp
    next
      case False
      with x0 have neg: "x < 0" and pos: "0 < - x" by simp_all
      have dy: "numberValue (- x) = Finite (- x)" using dx x0 by (rule numberValue_minus)
      define fd where "fd = formatDigits (shortestDigits (- x))"
      from toString_positive [OF pos dy] obtain m where
        lit: "strUnsignedDecimalLiteral fd = Some m"
        and nv: "numberValue m = Finite (- x)"
        and ws: "\<forall>c \<in> set fd. \<not> isWhiteSpace c"
        unfolding fd_def by blast
      have ts: "toString (Finite x) = CHR ''-'' # fd" using neg x0 by (simp add: fd_def)
      have "\<And>c. c \<in> set (CHR ''-'' # fd) \<Longrightarrow> \<not> isWhiteSpace c"
        using ws by (auto simp: not_isWhiteSpace_special)
      then have tr: "trim (CHR ''-'' # fd) = CHR ''-'' # fd" by (rule trim_id)
      have nd: "nonDecimalIntegerLiteral (CHR ''-'' # fd) = None"
        by (simp add: nonDecimalIntegerLiteral_def split: list.splits)
      have ninf: "fd \<noteq> ''Infinity''" using lit Infinity_not_literal by auto
      have nz: "numberValue m \<noteq> Finite 0" using nv x0 by simp
      have "- x \<noteq> 0" using x0 by simp
      with nv have "numberValue (- m) = Finite (- (- x))" by (rule numberValue_minus)
      then have rt: "numberValue (- m) = Finite x" by simp
      have "strDecimalLiteral (CHR ''-'' # fd) = Finite x"
        using ninf lit nz rt by (simp add: strDecimalLiteral_def)
      then have "StringToNumber (CHR ''-'' # fd) = Finite x"
        unfolding StringToNumber_def tr Let_def nd by simp
      then show ?thesis unfolding Finite ts tr by simp
    qed
  qed
  then show "StringToNumber (toString g) = g" and "trim (toString g) \<noteq> []" by simp_all
qed

subsection \<open>parseGasLimit\<close>

lemma parseGasLimit_0:
  "parseGasLimit (StringInput ''0'') = Inl (Error ''Gas Limit is not valid gasLimit=0'')"
  by (simp add: parseGasLimit_def StringToNumber_0 trim_def isWhiteSpace_def isNaN_def
      strictEquals_def isZero_def)

lemma parseGasLimit_digitsOf:
  assumes "1 \<le> n" and "n < 2 ^ 53"
  shows "parseGasLimit (StringInput (digitsOf n)) = Inr (Finite (of_int n))"
proof -
  have rt: "StringToNumber (digitsOf n) = Finite (of_int n)"
    using StringToNumber_digitsOf [OF assms] .
  have "trim (digitsOf n) \<noteq> []"
  proof
    assume "trim (digitsOf n) = []"
    then have "StringToNumber (digitsOf n) = Finite 0" by (simp add: StringToNumber_def)
    with rt assms(1) show False by simp
  qed
  moreover have "\<not> isNaN (Finite (of_int n))" by (simp add: isNaN_def)
  moreover have "\<not> strictEquals (Finite (of_int n)) (Finite 0)"
    using assms(1) by (simp add: strictEquals_def isZero_def)
  ultimately show ?thesis
    by (simp add: parseGasLimit_def rt)
qed

text \<open>
  C3, as stated, fails: the input "-5" is not empty when trimmed, converts to a number
  that is neither NaN nor zero, and parseGasLimit returns that number, -5, which is not
  an unsigned integer.
\<close>

theorem parseGasLimit_unsigned_counterexample:
  "trim ''-5'' \<noteq> [] \<and> \<not> isNaN (StringToNumber ''-5'')
   \<and> \<not> strictEquals (StringToNumber ''-5'') (Finite 0)
   \<and> parseGasLimit (StringInput ''-5'') = Inr (Finite (- 5))
   \<and> \<not> isUnsignedInteger (Finite (- 5))"
  by (simp add: parseGasLimit_def trim_minus_5 StringToNumber_minus_5 isNaN_def
      strictEquals_def isZero_def)

text \<open>
  C3, amended. parseGasLimit throws exactly when the trimmed input is empty or the input
  converts to NaN or to zero; on every other input it succeeds and returns the number the
  input converts to, Number(input). In particular it fails on "0", on "" and on "abc",
  and returns 30000000 on "30000000".
\<close>

theorem parseGasLimit_throws_iff:
  "isl (parseGasLimit gasLimitInput)
     = (trim (templateString gasLimitInput) = [] \<or> isNaN (Number gasLimitInput)
        \<or> strictEquals (Number gasLimitInput) (Finite 0))
   \<and> (parseGasLimit gasLimitInput = Inr (Number gasLimitInput))
     = (\<not> isl (parseGasLimit gasLimitInput))
   \<and> parseGasLimit (StringInput ''0'') = Inl (Error ''Gas Limit is not valid gasLimit=0'')
   \<and> parseGasLimit (StringInput ''30000000'') = Inr (Finite 30000000)
   \<and> parseGasLimit (StringInput '''') = Inl (Error ''Not valid Gas Limit'')
   \<and> parseGasLimit (StringInput ''abc'') = Inl (Error ''Gas Limit is not valid gasLimit=NaN'')"
proof -
  have 1: "isl (parseGasLimit gasLimitInput)
     = (trim (templateString gasLimitInput) = [] \<or> isNaN (Number gasLimitInput)
        \<or> strictEquals (Number gasLimitInput) (Finite 0))"
    by (cases gasLimitInput) (simp_all add: parseGasLimit_def Let_def del: toString.simps)
  have 2: "(parseGasLimit gasLimitInput = Inr (Number gasLimitInput))
     = (\<not> isl (parseGasLimit gasLimitInput))"
    by (cases gasLimitInput) (simp_all add: parseGasLimit_def Let_def del: toString.simps)
  have 4: "parseGasLimit (StringInput ''30000000'') = Inr (Finite 30000000)"
    using parseGasLimit_digitsOf [of 30000000] by (simp add: digitsOf_30000000)
  have 5: "parseGasLimit (StringInput '''') = Inl (Error ''Not valid Gas Limit'')"
    by (simp add: parseGasLimit_def trim_def)
  have 6: "parseGasLimit (StringInput ''abc'')
      = Inl (Error ''Gas Limit is not valid gasLimit=NaN'')"
    by (simp add: parseGasLimit_def StringToNumber_abc trim_abc isNaN_def)
  from 1 2 parseGasLimit_0 4 5 6 show ?thesis by (intro conjI)
qed

subsection \<open>Request serializers\<close>

lemma not_strictEquals_zero:
  "\<not> isNaN g \<Longrightarrow> strictEquals g (Finite 0) = isZero g"
  by (auto simp: strictEquals_def isZero_def isNaN_def)

lemma parseGasLimit_string:
  "parseGasLimit (StringInput s) = Inr g
     \<Longrightarrow> g = StringToNumber s \<and> \<not> isNaN g \<and> \<not> isZero g \<and> isDouble g"
  using isDouble_StringToNumber [of s] not_strictEquals_zero [of "StringToNumber s"]
  by (auto simp: parseGasLimit_def Let_def split: if_splits)

lemma parseGasLimit_toString:
  assumes "isDouble g" and "\<not> isNaN g" and "\<not> isZero g"
  shows "parseGasLimit (StringInput (toString g)) = Inr g"
  using StringToNumber_toString [OF assms] assms(2,3) not_strictEquals_zero [of g]
  by (simp add: parseGasLimit_def del: toString.simps)

lemma trim_NaN: "trim ''NaN'' = ''NaN''"
  by (simp add: trim_def isWhiteSpace_def)

lemma StringToNumber_NaN: "StringToNumber ''NaN'' = NaN"
proof -
  have u: "strUnsignedDecimalLiteral ''NaN'' = None"
    by (simp add: strUnsignedDecimalLiteral_def Let_def isDigit_def)
  show ?thesis
    by (simp add: StringToNumber_def trim_NaN nonDecimalIntegerLiteral_def
        strDecimalLiteral_def u)
qed

lemma parseGasLimit_NaN:
  "parseGasLimit (StringInput ''NaN'') = Inl (Error ''Gas Limit is not valid gasLimit=NaN'')"
  by (simp add: parseGasLimit_def StringToNumber_NaN trim_NaN isNaN_def)

text \<open>
  setGasLimit: what \<open>parseReq\<close> reads from a request written by \<open>writeReq\<close>, and the
  requests that \<open>writeReq\<close> writes back from what \<open>parseReq\<close> read.
\<close>

lemma setGasLimit_parse_write:
  assumes "isDouble g"
  shows "(setGasLimit_parseReq (setGasLimit_writeReq (pk, g)) = Inr (pk, g))
           = (\<not> isNaN g \<and> \<not> isZero g)"
proof (cases "\<not> isNaN g \<and> \<not> isZero g")
  case True
  then have "parseGasLimit (StringInput (toString g)) = Inr g"
    using parseGasLimit_toString [OF assms] by simp
  with True show ?thesis
    by (simp add: setGasLimit_parseReq_def setGasLimit_writeReq_def del: toString.simps)
next
  case False
  have "parseGasLimit (StringInput (toString g)) \<noteq> Inr g"
  proof
    assume "parseGasLimit (StringInput (toString g)) = Inr g"
    from parseGasLimit_string [OF this] False show False by simp
  qed
  then have "setGasLimit_parseReq (setGasLimit_writeReq (pk, g)) \<noteq> Inr (pk, g)"
    by (auto simp: setGasLimit_parseReq_def setGasLimit_writeReq_def
        simp del: toString.simps split: sum.splits)
  with False show ?thesis by simp
qed

lemma setGasLimit_write_parse:
  "(setGasLimit_reencode w = Inr w)
     = (\<exists>g. isDouble g \<and> \<not> isNaN g \<and> \<not> isZero g
          \<and> w = setGasLimit_writeReq (pubkey (params w), g))"
proof
  assume r: "setGasLimit_reencode w = Inr w"
  then obtain a where p: "setGasLimit_parseReq w = Inr a" and w: "setGasLimit_writeReq a = w"
    by (auto simp: setGasLimit_reencode_def split: sum.splits)
  from p obtain g where g: "parseGasLimit (StringInput (gas_limit (body w))) = Inr g"
    and a: "a = (pubkey (params w), g)"
    by (auto simp: setGasLimit_parseReq_def split: sum.splits)
  from parseGasLimit_string [OF g] w a
  show "\<exists>g. isDouble g \<and> \<not> isNaN g \<and> \<not> isZero g
          \<and> w = setGasLimit_writeReq (pubkey (params w), g)"
    by auto
next
  assume "\<exists>g. isDouble g \<and> \<not> isNaN g \<and> \<not> isZero g
          \<and> w = setGasLimit_writeReq (pubkey (params w), g)"
  then obtain g where g: "isDouble g" "\<not> isNaN g" "\<not> isZero g"
    and w: "w = setGasLimit_writeReq (pubkey (params w), g)"
    by blast
  have "setGasLimit_parseReq (setGasLimit_writeReq (pubkey (params w), g))
      = Inr (pubkey (params w), g)"
    using setGasLimit_parse_write [OF g(1)] g(2,3) by simp
  then have "setGasLimit_reencode (setGasLimit_writeReq (pubkey (params w), g))
      = Inr (setGasLimit_writeReq (pubkey (params w), g))"
    by (simp add: setGasLimit_reencode_def)
  with w show "setGasLimit_reencode w = Inr w" by simp
qed

text \<open>Some doubles: a fraction, a negative integer, and the integer \<open>2 ^ 53\<close>.\<close>

lemma isDouble_examples:
  "isDouble (Finite 30000000)" "isDouble (Finite (3 / 2))" "isDouble (Finite (- 5))"
  "isDouble (Finite 9007199254740992)" "isDouble Infinity"
proof -
  show "isDouble (Finite 30000000)"
    using numberValue_of_int [of 30000000] by (simp add: isDouble_def)
  have "numberValue 5 = Finite 5" using numberValue_of_int [of 5] by simp
  then have "numberValue (- 5) = Finite (- 5)" by (rule numberValue_minus) simp
  then show "isDouble (Finite (- 5))" by (simp add: isDouble_def)
  have "roundHalfEven ((3 / 2) / 2 powi (0 - 52)) = 6755399441055744"
  proof -
    have "(3 / 2) / (2::rat) powi (0 - 52) = of_int 6755399441055744" by simp
    then show ?thesis by (simp only: roundHalfEven_of_int)
  qed
  then have "numberValue (3 / 2) = Finite (of_int 6755399441055744 * 2 powi (0 - 52))"
    by (intro numberValue_binade) simp_all
  then show "isDouble (Finite (3 / 2))" by (simp add: isDouble_def)
  have "roundHalfEven (9007199254740992 / 2 powi (53 - 52)) = 4503599627370496"
  proof -
    have "9007199254740992 / (2::rat) powi (53 - 52) = of_int 4503599627370496" by simp
    then show ?thesis by (simp only: roundHalfEven_of_int)
  qed
  then have "numberValue 9007199254740992
      = Finite (of_int 4503599627370496 * 2 powi (53 - 52))"
    by (intro numberValue_binade) simp_all
  then show "isDouble (Finite 9007199254740992)" by (simp add: isDouble_def)
  show "isDouble Infinity" by (simp add: isDouble_def)
qed

text \<open>
  C2, as stated, fails for setGasLimit in both directions. The wire request with
  gas_limit " 30000000" is parsed to the gas limit 30000000, which is written back as
  "30000000": another request. The wire request with gas_limit "0" is not parsed at all.
  The arguments with gasLimit 0 or -0 are written as "0", and those with gasLimit NaN as
  "NaN", which parseReq rejects.
\<close>

theorem setGasLimit_round_trip_counterexample:
  "setGasLimit_reencode \<lparr>params = \<lparr>pubkey = ''0xaa''\<rparr>, body = \<lparr>gas_limit = '' 30000000''\<rparr>\<rparr>
     = Inr \<lparr>params = \<lparr>pubkey = ''0xaa''\<rparr>, body = \<lparr>gas_limit = ''30000000''\<rparr>\<rparr>
   \<and> setGasLimit_reencode \<lparr>params = \<lparr>pubkey = ''0xaa''\<rparr>, body = \<lparr>gas_limit = '' 30000000''\<rparr>\<rparr>
     \<noteq> Inr \<lparr>params = \<lparr>pubkey = ''0xaa''\<rparr>, body = \<lparr>gas_limit = '' 30000000''\<rparr>\<rparr>
   \<and> setGasLimit_reencode \<lparr>params = \<lparr>pubkey = ''0xaa''\<rparr>, body = \<lparr>gas_limit = ''0''\<rparr>\<rparr>
     = Inl (Error ''Gas Limit is not valid gasLimit=0'')
   \<and> setGasLimit_parseReq (setGasLimit_writeReq (''0xaa'', Finite 0))
     = Inl (Error ''Gas Limit is not valid gasLimit=0'')
   \<and> setGasLimit_parseReq (setGasLimit_writeReq (''0xaa'', Finite 0))
     \<noteq> Inr (''0xaa'', Finite 0)
   \<and> setGasLimit_parseReq (setGasLimit_writeReq (''0xaa'', NegZero))
     = Inl (Error ''Gas Limit is not valid gasLimit=0'')
   \<and> setGasLimit_parseReq (setGasLimit_writeReq (''0xaa'', NaN))
     = Inl (Error ''Gas Limit is not valid gasLimit=NaN'')"
proof -
  have p30: "parseGasLimit (StringInput '' 30000000'') = Inr (Finite 30000000)"
    by (simp add: parseGasLimit_def StringToNumber_space_30000000 trim_space_30000000
        isNaN_def strictEquals_def isZero_def)
  have 1: "setGasLimit_reencode
      \<lparr>params = \<lparr>pubkey = ''0xaa''\<rparr>, body = \<lparr>gas_limit = '' 30000000''\<rparr>\<rparr>
     = Inr \<lparr>params = \<lparr>pubkey = ''0xaa''\<rparr>, body = \<lparr>gas_limit = ''30000000''\<rparr>\<rparr>"
    by (simp add: setGasLimit_reencode_def setGasLimit_parseReq_def setGasLimit_writeReq_def
        p30 toString_30000000 del: toString.simps)
  have 2: "setGasLimit_reencode \<lparr>params = \<lparr>pubkey = ''0xaa''\<rparr>, body = \<lparr>gas_limit = ''0''\<rparr>\<rparr>
     = Inl (Error ''Gas Limit is not valid gasLimit=0'')"
    by (simp add: setGasLimit_reencode_def setGasLimit_parseReq_def parseGasLimit_0)
  have 3: "setGasLimit_parseReq (setGasLimit_writeReq (''0xaa'', Finite 0))
     = Inl (Error ''Gas Limit is not valid gasLimit=0'')"
    by (simp add: setGasLimit_parseReq_def setGasLimit_writeReq_def parseGasLimit_0)
  have 4: "setGasLimit_reencode
      \<lparr>params = \<lparr>pubkey = ''0xaa''\<rparr>, body = \<lparr>gas_limit = '' 30000000''\<rparr>\<rparr>
     \<noteq> Inr \<lparr>params = \<lparr>pubkey = ''0xaa''\<rparr>, body = \<lparr>gas_limit = '' 30000000''\<rparr>\<rparr>"
    unfolding 1 by simp
  have 5: "setGasLimit_parseReq (setGasLimit_writeReq (''0xaa'', Finite 0))
     \<noteq> Inr (''0xaa'', Finite 0)"
    unfolding 3 by simp
  have 6: "setGasLimit_parseReq (setGasLimit_writeReq (''0xaa'', NegZero))
     = Inl (Error ''Gas Limit is not valid gasLimit=0'')"
    by (simp add: setGasLimit_parseReq_def setGasLimit_writeReq_def parseGasLimit_0)
  have 7: "setGasLimit_parseReq (setGasLimit_writeReq (''0xaa'', NaN))
     = Inl (Error ''Gas Limit is not valid gasLimit=NaN'')"
    by (simp add: setGasLimit_parseReq_def setGasLimit_writeReq_def parseGasLimit_NaN)
  from 1 4 2 3 5 6 7 show ?thesis by (intro conjI)
qed

text \<open>
  C2, amended. For every operation other than setGasLimit, decoding is a left and a right
  inverse of encoding: parseReq (writeReq a) = a for all arguments a, and
  writeReq (parseReq w) = w for all wire requests w. For setGasLimit,
  parseReq (writeReq (pubkey, gasLimit)) = (pubkey, gasLimit) holds exactly when gasLimit
  is neither NaN nor a zero, so for every other number: fractions, negative numbers,
  integers of any size and the infinities; and writeReq (parseReq w) = w holds exactly
  for the wire requests w that writeReq writes from such arguments. For a gas limit that
  is an integer from 1 to 2^53 - 1, writeReq writes its decimal digits.
\<close>

theorem reqSerializers_round_trip:
  "(\<forall>a. listKeys_parseReq (listKeys_writeReq a) = a)
   \<and> (\<forall>w. listKeys_writeReq (listKeys_parseReq w) = w)
   \<and> (\<forall>a. importKeystores_parseReq (importKeystores_writeReq a) = a)
   \<and> (\<forall>w. importKeystores_writeReq (importKeystores_parseReq w) = w)
   \<and> (\<forall>a. deleteKeys_parseReq (deleteKeys_writeReq a) = a)
   \<and> (\<forall>w. deleteKeys_writeReq (deleteKeys_parseReq w) = w)
   \<and> (\<forall>a. listRemoteKeys_parseReq (listRemoteKeys_writeReq a) = a)
   \<and> (\<forall>w. listRemoteKeys_writeReq (listRemoteKeys_parseReq w) = w)
   \<and> (\<forall>a. importRemoteKeys_parseReq (importRemoteKeys_writeReq a) = a)
   \<and> (\<forall>w. importRemoteKeys_writeReq (importRemoteKeys_parseReq w) = w)
   \<and> (\<forall>a. deleteRemoteKeys_parseReq (deleteRemoteKeys_writeReq a) = a)
   \<and> (\<forall>w. deleteRemoteKeys_writeReq (deleteRemoteKeys_parseReq w) = w)
   \<and> (\<forall>a. listFeeRecipient_parseReq (listFeeRecipient_writeReq a) = a)
   \<and> (\<forall>w. listFeeRecipient_writeReq (listFeeRecipient_parseReq w) = w)
   \<and> (\<forall>a. setFeeRecipient_parseReq (setFeeRecipient_writeReq a) = a)
   \<and> (\<forall>w. setFeeRecipient_writeReq (setFeeRecipient_parseReq w) = w)
   \<and> (\<forall>a. deleteFeeRecipient_parseReq (deleteFeeRecipient_writeReq a) = a)
   \<and> (\<forall>w. deleteFeeRecipient_writeReq (deleteFeeRecipient_parseReq w) = w)
   \<and> (\<forall>a. getGasLimit_parseReq (getGasLimit_writeReq a) = a)
   \<and> (\<forall>w. getGasLimit_writeReq (getGasLimit_parseReq w) = w)
   \<and> (\<forall>a. deleteGasLimit_parseReq (deleteGasLimit_writeReq a) = a)
   \<and> (\<forall>w. deleteGasLimit_writeReq (deleteGasLimit_parseReq w) = w)
   \<and> (\<forall>pk g. isDouble g \<longrightarrow>
        (setGasLimit_parseReq (setGasLimit_writeReq (pk, g)) = Inr (pk, g))
          = (\<not> isNaN g \<and> \<not> isZero g))
   \<and> (\<forall>w. (setGasLimit_reencode w = Inr w)
          = (\<exists>g. isDouble g \<and> \<not> isNaN g \<and> \<not> isZero g
               \<and> w = setGasLimit_writeReq (pubkey (params w), g)))
   \<and> (\<forall>pk n. 1 \<le> n \<and> n < 2 ^ 53 \<longrightarrow>
        setGasLimit_writeReq (pk, Finite (of_int n))
          = \<lparr>params = \<lparr>pubkey = pk\<rparr>, body = \<lparr>gas_limit = digitsOf n\<rparr>\<rparr>
        \<and> setGasLimit_parseReq (setGasLimit_writeReq (pk, Finite (of_int n)))
          = Inr (pk, Finite (of_int n))
        \<and> setGasLimit_reencode \<lparr>params = \<lparr>pubkey = pk\<rparr>, body = \<lparr>gas_limit = digitsOf n\<rparr>\<rparr>
          = Inr \<lparr>params = \<lparr>pubkey = pk\<rparr>, body = \<lparr>gas_limit = digitsOf n\<rparr>\<rparr>)"
proof -
  have e: "listKeys_parseReq (listKeys_writeReq a1) = a1"
    "listKeys_writeReq (listKeys_parseReq w1) = w1"
    "listRemoteKeys_parseReq (listRemoteKeys_writeReq a4) = a4"
    "listRemoteKeys_writeReq (listRemoteKeys_parseReq w4) = w4"
    for a1 w1 a4 w4
    by (simp_all add: listKeys_parseReq_def listKeys_writeReq_def listRemoteKeys_parseReq_def
        listRemoteKeys_writeReq_def reqEmpty_parseReq_def reqEmpty_writeReq_def)
  have k: "importKeystores_parseReq (importKeystores_writeReq a2) = a2"
    "importKeystores_writeReq (importKeystores_parseReq w2) = w2"
    for a2 w2
    by (simp_all add: importKeystores_parseReq_def importKeystores_writeReq_def
        split: prod.splits)
  have d: "deleteKeys_parseReq (deleteKeys_writeReq a3) = a3"
    "deleteKeys_writeReq (deleteKeys_parseReq w3) = w3"
    "deleteRemoteKeys_parseReq (deleteRemoteKeys_writeReq a6) = a6"
    "deleteRemoteKeys_writeReq (deleteRemoteKeys_parseReq w6) = w6"
    "importRemoteKeys_parseReq (importRemoteKeys_writeReq a5) = a5"
    "importRemoteKeys_writeReq (importRemoteKeys_parseReq w5) = w5"
    for a3 w3 a5 w5 a6 w6
    by (simp_all add: deleteKeys_parseReq_def deleteKeys_writeReq_def
        deleteRemoteKeys_parseReq_def deleteRemoteKeys_writeReq_def
        importRemoteKeys_parseReq_def importRemoteKeys_writeReq_def)
  have f: "listFeeRecipient_parseReq (listFeeRecipient_writeReq a7) = a7"
    "listFeeRecipient_writeReq (listFeeRecipient_parseReq w7) = w7"
    "setFeeRecipient_parseReq (setFeeRecipient_writeReq a8) = a8"
    "setFeeRecipient_writeReq (setFeeRecipient_parseReq w8) = w8"
    "deleteFeeRecipient_parseReq (deleteFeeRecipient_writeReq a9) = a9"
    "deleteFeeRecipient_writeReq (deleteFeeRecipient_parseReq w9) = w9"
    for a7 w7 a8 w8 a9 w9
    by (simp_all add: listFeeRecipient_parseReq_def listFeeRecipient_writeReq_def
        setFeeRecipient_parseReq_def setFeeRecipient_writeReq_def
        deleteFeeRecipient_parseReq_def deleteFeeRecipient_writeReq_def split: prod.splits)
  have g: "getGasLimit_parseReq (getGasLimit_writeReq a10) = a10"
    "getGasLimit_writeReq (getGasLimit_parseReq w10) = w10"
    "deleteGasLimit_parseReq (deleteGasLimit_writeReq a12) = a12"
    "deleteGasLimit_writeReq (deleteGasLimit_parseReq w12) = w12"
    for a10 w10 a12 w12
    by (simp_all add: getGasLimit_parseReq_def getGasLimit_writeReq_def
        deleteGasLimit_parseReq_def deleteGasLimit_writeReq_def)
  have s: "setGasLimit_writeReq (pk, Finite (of_int n))
          = \<lparr>params = \<lparr>pubkey = pk\<rparr>, body = \<lparr>gas_limit = digitsOf n\<rparr>\<rparr>
        \<and> setGasLimit_parseReq (setGasLimit_writeReq (pk, Finite (of_int n)))
          = Inr (pk, Finite (of_int n))
        \<and> setGasLimit_reencode \<lparr>params = \<lparr>pubkey = pk\<rparr>, body = \<lparr>gas_limit = digitsOf n\<rparr>\<rparr>
          = Inr \<lparr>params = \<lparr>pubkey = pk\<rparr>, body = \<lparr>gas_limit = digitsOf n\<rparr>\<rparr>"
    if "1 \<le> n" "n < 2 ^ 53" for pk n
  proof -
    have w: "setGasLimit_writeReq (pk, Finite (of_int n))
          = \<lparr>params = \<lparr>pubkey = pk\<rparr>, body = \<lparr>gas_limit = digitsOf n\<rparr>\<rparr>"
      using toString_integer [OF that] by (simp add: setGasLimit_writeReq_def del: toString.simps)
    have p: "setGasLimit_parseReq \<lparr>params = \<lparr>pubkey = pk\<rparr>, body = \<lparr>gas_limit = digitsOf n\<rparr>\<rparr>
          = Inr (pk, Finite (of_int n))"
      using parseGasLimit_digitsOf [OF that] by (simp add: setGasLimit_parseReq_def)
    from w p show ?thesis by (simp add: setGasLimit_reencode_def del: toString.simps)
  qed
  have last: "\<forall>pk n. 1 \<le> n \<and> n < 2 ^ 53 \<longrightarrow>
        setGasLimit_writeReq (pk, Finite (of_int n))
          = \<lparr>params = \<lparr>pubkey = pk\<rparr>, body = \<lparr>gas_limit = digitsOf n\<rparr>\<rparr>
        \<and> setGasLimit_parseReq (setGasLimit_writeReq (pk, Finite (of_int n)))
          = Inr (pk, Finite (of_int n))
        \<and> setGasLimit_reencode \<lparr>params = \<lparr>pubkey = pk\<rparr>, body = \<lparr>gas_limit = digitsOf n\<rparr>\<rparr>
          = Inr \<lparr>params = \<lparr>pubkey = pk\<rparr>, body = \<lparr>gas_limit = digitsOf n\<rparr>\<rparr>"
    using s by blast
  have left: "\<forall>pk g. isDouble g \<longrightarrow>
        (setGasLimit_parseReq (setGasLimit_writeReq (pk, g)) = Inr (pk, g))
          = (\<not> isNaN g \<and> \<not> isZero g)"
    using setGasLimit_parse_write by blast
  have right: "\<forall>w. (setGasLimit_reencode w = Inr w)
          = (\<exists>g. isDouble g \<and> \<not> isNaN g \<and> \<not> isZero g
               \<and> w = setGasLimit_writeReq (pubkey (params w), g))"
    using setGasLimit_write_parse by blast
  show ?thesis
    by (intro conjI allI e k d f g last [THEN spec, THEN spec] left [THEN spec, THEN spec]
        right [THEN spec])
qed

text \<open>
  The round trip of setGasLimit at some gas limits: 30000000, which is written as
  "30000000", the fraction 3/2, the negative integer -5, the integer 2^53, and Infinity.
\<close>

theorem reqSerializers_round_trip_witness:
  "isDouble (Finite 30000000) \<and> \<not> isNaN (Finite 30000000) \<and> \<not> isZero (Finite 30000000)
   \<and> setGasLimit_parseReq (setGasLimit_writeReq (''0xaa'', Finite 30000000))
      = Inr (''0xaa'', Finite 30000000)
   \<and> setGasLimit_parseReq (setGasLimit_writeReq (''0xaa'', Finite (3 / 2)))
      = Inr (''0xaa'', Finite (3 / 2))
   \<and> setGasLimit_parseReq (setGasLimit_writeReq (''0xaa'', Finite (- 5)))
      = Inr (''0xaa'', Finite (- 5))
   \<and> setGasLimit_parseReq (setGasLimit_writeReq (''0xaa'', Finite 9007199254740992))
      = Inr (''0xaa'', Finite 9007199254740992)
   \<and> setGasLimit_parseReq (setGasLimit_writeReq (''0xaa'', Infinity))
      = Inr (''0xaa'', Infinity)
   \<and> (1::int) \<le> 30000000 \<and> (30000000::int) < 2 ^ 53
   \<and> setGasLimit_writeReq (''0xaa'', Finite 30000000)
      = \<lparr>params = \<lparr>pubkey = ''0xaa''\<rparr>, body = \<lparr>gas_limit = ''30000000''\<rparr>\<rparr>
   \<and> setGasLimit_reencode \<lparr>params = \<lparr>pubkey = ''0xaa''\<rparr>, body = \<lparr>gas_limit = ''30000000''\<rparr>\<rparr>
      = Inr \<lparr>params = \<lparr>pubkey = ''0xaa''\<rparr>, body = \<lparr>gas_limit = ''30000000''\<rparr>\<rparr>"
proof -
  have h: "(1::int) \<le> 30000000 \<and> (30000000::int) < 2 ^ 53" by simp
  have left: "\<forall>pk g. isDouble g \<longrightarrow>
        (setGasLimit_parseReq (setGasLimit_writeReq (pk, g)) = Inr (pk, g))
          = (\<not> isNaN g \<and> \<not> isZero g)"
    using reqSerializers_round_trip by (elim conjE)
  have ok: "setGasLimit_parseReq (setGasLimit_writeReq (''0xaa'', g)) = Inr (''0xaa'', g)"
    if "isDouble g" "\<not> isNaN g" "\<not> isZero g" for g
    using left [THEN spec, THEN spec, of g "''0xaa''"] that by blast
  have n: "\<not> isNaN (Finite x)" "\<not> isNaN Infinity" "\<not> isZero Infinity" for x
    by (simp_all add: isNaN_def isZero_def)
  have z: "\<not> isZero (Finite 30000000)" "\<not> isZero (Finite (3 / 2))" "\<not> isZero (Finite (- 5))"
    "\<not> isZero (Finite 9007199254740992)"
    by (simp_all add: isZero_def)
  have "\<forall>pk n. 1 \<le> n \<and> n < 2 ^ 53 \<longrightarrow>
        setGasLimit_writeReq (pk, Finite (of_int n))
          = \<lparr>params = \<lparr>pubkey = pk\<rparr>, body = \<lparr>gas_limit = digitsOf n\<rparr>\<rparr>
        \<and> setGasLimit_parseReq (setGasLimit_writeReq (pk, Finite (of_int n)))
          = Inr (pk, Finite (of_int n))
        \<and> setGasLimit_reencode \<lparr>params = \<lparr>pubkey = pk\<rparr>, body = \<lparr>gas_limit = digitsOf n\<rparr>\<rparr>
          = Inr \<lparr>params = \<lparr>pubkey = pk\<rparr>, body = \<lparr>gas_limit = digitsOf n\<rparr>\<rparr>"
    using reqSerializers_round_trip by (elim conjE)
  from this [THEN spec, THEN spec, of 30000000 "''0xaa''"] h
  have "setGasLimit_writeReq (''0xaa'', Finite (of_int 30000000))
          = \<lparr>params = \<lparr>pubkey = ''0xaa''\<rparr>, body = \<lparr>gas_limit = digitsOf 30000000\<rparr>\<rparr>
        \<and> setGasLimit_parseReq (setGasLimit_writeReq (''0xaa'', Finite (of_int 30000000)))
          = Inr (''0xaa'', Finite (of_int 30000000))
        \<and> setGasLimit_reencode
            \<lparr>params = \<lparr>pubkey = ''0xaa''\<rparr>, body = \<lparr>gas_limit = digitsOf 30000000\<rparr>\<rparr>
          = Inr \<lparr>params = \<lparr>pubkey = ''0xaa''\<rparr>, body = \<lparr>gas_limit = digitsOf 30000000\<rparr>\<rparr>"
    by (rule mp)
  then have i: "setGasLimit_writeReq (''0xaa'', Finite 30000000)
          = \<lparr>params = \<lparr>pubkey = ''0xaa''\<rparr>, body = \<lparr>gas_limit = ''30000000''\<rparr>\<rparr>"
      "setGasLimit_reencode
            \<lparr>params = \<lparr>pubkey = ''0xaa''\<rparr>, body = \<lparr>gas_limit = ''30000000''\<rparr>\<rparr>
          = Inr \<lparr>params = \<lparr>pubkey = ''0xaa''\<rparr>, body = \<lparr>gas_limit = ''30000000''\<rparr>\<rparr>"
    unfolding digitsOf_30000000 of_int_numeral by blast+
  from isDouble_examples(1) n(1) z(1)
    ok [OF isDouble_examples(1) n(1) z(1)] ok [OF isDouble_examples(2) n(1) z(2)]
    ok [OF isDouble_examples(3) n(1) z(3)] ok [OF isDouble_examples(4) n(1) z(4)]
    ok [OF isDouble_examples(5) n(2) n(3)] h [THEN conjunct1] h [THEN conjunct2] i
  show ?thesis by (intro conjI)
qed

end
